theory Spec2Isabelle
  imports Complex_Main
begin

section \<open>Gradient estimators of \<^verbatim>\<open>pydrobert/torch/estimators.py\<close>\<close>

text \<open>
  The module computes with torch tensors. A tensor is modelled by its shape, its elements
  as a function of the index (one natural number per dimension) and the
  \<^verbatim>\<open>requires_grad\<close> flag. Elements are real numbers and the operations are exact:
  overflow, infinities and NaN of the floating-point types are outside the model, and
  tensors of an integer type (\<^verbatim>\<open>long\<close>, \<^verbatim>\<open>uint8\<close>) hold integer-valued reals. The
  rounding of \<^verbatim>\<open>float32\<close> is modelled in the subsection on single precision, for
  \<^verbatim>\<open>_to_z_tilde\<close>, where it changes the discrete result. Only the elements at valid
  indices of the shape mean anything.

  A raised exception is a value of type \<open>error\<close>. \<open>RuntimeError\<close> stands for every error
  raised by torch itself (shape mismatch, index out of range, autograd failure).
  \<open>OutsideModel\<close> marks the inputs on which the behaviour of a torch primitive is not
  modelled (zero-dimensional tensors in operations along the last dimension, and
  arguments of the library distributions outside their documented domain); nothing is
  stated about them.
\<close>

datatype error = ValueError string | RuntimeError | OutsideModel

record tensor =
  shape :: "nat list"
  elem :: "nat list \<Rightarrow> real"
  requires_grad :: bool

definition ebind :: "error + 'a \<Rightarrow> ('a \<Rightarrow> error + 'b) \<Rightarrow> error + 'b" where
  "ebind m f = (case m of Inl e \<Rightarrow> Inl e | Inr x \<Rightarrow> f x)"

subsection \<open>Indices and broadcasting\<close>

definition valid :: "nat list \<Rightarrow> nat list \<Rightarrow> bool" where
  "valid s i = list_all2 (<) i s"

fun indices :: "nat list \<Rightarrow> nat list list" where
  "indices [] = [[]]"
| "indices (d # ds) = concat (map (\<lambda>k. map ((#) k) (indices ds)) [0..<d])"

text \<open>Shapes are aligned at the last dimension; a dimension of size 1 stretches.\<close>

fun bshape_rev :: "nat list \<Rightarrow> nat list \<Rightarrow> nat list option" where
  "bshape_rev [] ys = Some ys"
| "bshape_rev (x # xs) [] = Some (x # xs)"
| "bshape_rev (x # xs) (y # ys) =
     (if x = y \<or> y = 1 then map_option ((#) x) (bshape_rev xs ys)
      else if x = 1 then map_option ((#) y) (bshape_rev xs ys)
      else None)"

definition broadcast_shapes :: "nat list \<Rightarrow> nat list \<Rightarrow> nat list option" where
  "broadcast_shapes a b = map_option rev (bshape_rev (rev a) (rev b))"

text \<open>The index into an operand of shape \<open>s\<close> that belongs to index \<open>i\<close> of the result.\<close>

definition bidx :: "nat list \<Rightarrow> nat list \<Rightarrow> nat list" where
  "bidx s i = map2 (\<lambda>d k. if d = 1 then 0 else k) s (drop (length i - length s) i)"

subsection \<open>Elementwise operations\<close>

definition tmap :: "(real \<Rightarrow> real) \<Rightarrow> tensor \<Rightarrow> tensor" where
  "tmap f t = t\<lparr>elem := \<lambda>i. f (elem t i)\<rparr>"

definition tbin :: "(real \<Rightarrow> real \<Rightarrow> real) \<Rightarrow> tensor \<Rightarrow> tensor \<Rightarrow> error + tensor" where
  "tbin f a b =
     (case broadcast_shapes (shape a) (shape b) of
        None \<Rightarrow> Inl RuntimeError
      | Some s \<Rightarrow> Inr \<lparr>shape = s,
                      elem = \<lambda>i. f (elem a (bidx (shape a) i)) (elem b (bidx (shape b) i)),
                      requires_grad = requires_grad a \<or> requires_grad b\<rparr>)"

definition tadd :: "tensor \<Rightarrow> tensor \<Rightarrow> error + tensor" where
  "tadd = tbin (+)"

definition tsub :: "tensor \<Rightarrow> tensor \<Rightarrow> error + tensor" where
  "tsub = tbin (-)"

definition tmul :: "tensor \<Rightarrow> tensor \<Rightarrow> error + tensor" where
  "tmul = tbin (*)"

definition tdiv :: "tensor \<Rightarrow> tensor \<Rightarrow> error + tensor" where
  "tdiv = tbin (/)"

definition tneg :: "tensor \<Rightarrow> tensor" where
  "tneg = tmap uminus"

definition tlog :: "tensor \<Rightarrow> tensor" where
  "tlog = tmap ln"

definition tlog1p :: "tensor \<Rightarrow> tensor" where
  "tlog1p = tmap (\<lambda>x. ln (1 + x))"

definition texp :: "tensor \<Rightarrow> tensor" where
  "texp = tmap exp"

definition sigmoid :: "real \<Rightarrow> real" where
  "sigmoid x = 1 / (1 + exp (- x))"

definition tsigmoid :: "tensor \<Rightarrow> tensor" where
  "tsigmoid = tmap sigmoid"

definition detach :: "tensor \<Rightarrow> tensor" where
  "detach t = t\<lparr>requires_grad := False\<rparr>"

definition set_requires_grad :: "tensor \<Rightarrow> bool \<Rightarrow> tensor" where
  "set_requires_grad t g = t\<lparr>requires_grad := g\<rparr>"

definition zeros_like :: "tensor \<Rightarrow> tensor" where
  "zeros_like t = \<lparr>shape = shape t, elem = \<lambda>i. 0, requires_grad = False\<rparr>"

definition ones_like :: "tensor \<Rightarrow> tensor" where
  "ones_like t = \<lparr>shape = shape t, elem = \<lambda>i. 1, requires_grad = False\<rparr>"

text \<open>\<^verbatim>\<open>t.unsqueeze(-1)\<close> and \<^verbatim>\<open>t[..., None]\<close>: a last dimension of size 1 is added.\<close>

definition unsqueeze_last :: "tensor \<Rightarrow> tensor" where
  "unsqueeze_last t = t\<lparr>shape := shape t @ [1], elem := \<lambda>i. elem t (butlast i)\<rparr>"

subsection \<open>Operations along the last dimension\<close>

definition row :: "tensor \<Rightarrow> nat list \<Rightarrow> real list" where
  "row t p = map (\<lambda>d. elem t (p @ [d])) [0..<last (shape t)]"

text \<open>The first position of the largest element, as \<^verbatim>\<open>argmax\<close> returns it.\<close>

fun argmax_list :: "real list \<Rightarrow> nat" where
  "argmax_list [] = 0"
| "argmax_list [x] = 0"
| "argmax_list (x # y # ys) =
     (let k = argmax_list (y # ys) in if (y # ys) ! k \<le> x then 0 else Suc k)"

definition argmax_last :: "bool \<Rightarrow> tensor \<Rightarrow> error + tensor" where
  "argmax_last keepdim t =
     (if shape t = [] then Inl OutsideModel
      else if last (shape t) = 0 then Inl RuntimeError
      else Inr \<lparr>shape = butlast (shape t) @ (if keepdim then [1] else []),
                elem = \<lambda>i. real (argmax_list (row t (take (length (shape t) - 1) i))),
                requires_grad = False\<rparr>)"

definition softmax_last :: "tensor \<Rightarrow> error + tensor" where
  "softmax_last t =
     (if shape t = [] then Inl OutsideModel
      else Inr (t\<lparr>elem := \<lambda>i. exp (elem t i) / sum_list (map exp (row t (butlast i)))\<rparr>))"

definition log_softmax_last :: "tensor \<Rightarrow> error + tensor" where
  "log_softmax_last t =
     (if shape t = [] then Inl OutsideModel
      else Inr (t\<lparr>elem := \<lambda>i. elem t i - ln (sum_list (map exp (row t (butlast i))))\<rparr>))"

text \<open>
  \<^verbatim>\<open>self.scatter_(-1, index, value)\<close>: \<open>index\<close> has the rank of \<open>self\<close> and is no larger
  than \<open>self\<close> in the leading dimensions; every entry of \<open>index\<close> is a position of the last
  dimension of \<open>self\<close>.
\<close>

definition index_ok :: "nat list \<Rightarrow> tensor \<Rightarrow> bool" where
  "index_ok s index \<longleftrightarrow>
     length (shape index) = length s \<and>
     list_all2 (\<le>) (butlast (shape index)) (butlast s) \<and>
     list_all (\<lambda>i. 0 \<le> elem index i \<and> elem index i < real (last s)) (indices (shape index))"

definition scatter_last :: "tensor \<Rightarrow> tensor \<Rightarrow> real \<Rightarrow> error + tensor" where
  "scatter_last self index v =
     (if shape self = [] \<or> shape index = [] then Inl OutsideModel
      else if \<not> index_ok (shape self) index then Inl RuntimeError
      else Inr (self\<lparr>elem := \<lambda>i.
             if list_all2 (<) (butlast i) (butlast (shape index)) \<and>
                list_ex (\<lambda>j. elem index (butlast i @ [j]) = real (last i))
                  [0..<last (shape index)]
             then v else elem self i\<rparr>))"

definition gather_last :: "tensor \<Rightarrow> tensor \<Rightarrow> error + tensor" where
  "gather_last input index =
     (if shape input = [] \<or> shape index = [] then Inl OutsideModel
      else if \<not> index_ok (shape input) index then Inl RuntimeError
      else Inr \<lparr>shape = shape index,
                elem = \<lambda>i. elem input (butlast i @ [nat \<lfloor>elem index i\<rfloor>]),
                requires_grad = requires_grad input\<rparr>)"

text \<open>\<^verbatim>\<open>torch.where(cond, x, y)\<close> with a \<^verbatim>\<open>uint8\<close> condition: non-zero selects \<open>x\<close>.\<close>

definition twhere :: "tensor \<Rightarrow> tensor \<Rightarrow> tensor \<Rightarrow> error + tensor" where
  "twhere cond x y =
     (case broadcast_shapes (shape cond) (shape x) of
        None \<Rightarrow> Inl RuntimeError
      | Some s1 \<Rightarrow>
         (case broadcast_shapes s1 (shape y) of
            None \<Rightarrow> Inl RuntimeError
          | Some s \<Rightarrow> Inr \<lparr>shape = s,
                 elem = \<lambda>i. if elem cond (bidx (shape cond) i) \<noteq> 0
                           then elem x (bidx (shape x) i) else elem y (bidx (shape y) i),
                 requires_grad = requires_grad x \<or> requires_grad y\<rparr>))"

text \<open>Conversions to the integer types truncate towards zero; \<^verbatim>\<open>uint8\<close> wraps.\<close>

definition trunc :: "real \<Rightarrow> int" where
  "trunc x = (if 0 \<le> x then \<lfloor>x\<rfloor> else \<lceil>x\<rceil>)"

definition long :: "tensor \<Rightarrow> tensor" where
  "long t = \<lparr>shape = shape t, elem = \<lambda>i. real_of_int (trunc (elem t i)),
            requires_grad = False\<rparr>"

definition byte :: "tensor \<Rightarrow> tensor" where
  "byte t = \<lparr>shape = shape t, elem = \<lambda>i. real_of_int (trunc (elem t i) mod 256),
            requires_grad = False\<rparr>"

subsection \<open>Noise\<close>

text \<open>
  \<^verbatim>\<open>torch.rand_like(logits)\<close> is the random source; the draw is the argument \<open>rnd\<close>, one
  number per index. \<^verbatim>\<open>clamp_probs\<close> clamps to \<open>[eps, 1 - eps]\<close>, where \<open>eps\<close> is the
  machine epsilon of the element type of \<open>logits\<close>.
\<close>

definition rand_like :: "(nat list \<Rightarrow> real) \<Rightarrow> tensor \<Rightarrow> tensor" where
  "rand_like rnd t = \<lparr>shape = shape t, elem = rnd, requires_grad = False\<rparr>"

definition clamp_probs :: "real \<Rightarrow> tensor \<Rightarrow> tensor" where
  "clamp_probs eps probs = tmap (\<lambda>x. min (max x eps) (1 - eps)) probs"

subsection \<open>Distribution tags\<close>

definition BERNOULLI_SYNONYMS :: "string set" where
  "BERNOULLI_SYNONYMS = {''bern'', ''Bern'', ''bernoulli'', ''Bernoulli''}"

definition CATEGORICAL_SYNONYMS :: "string set" where
  "CATEGORICAL_SYNONYMS = {''cat'', ''Cat'', ''categorical'', ''Categorical''}"

definition ONEHOT_SYNONYMS :: "string set" where
  "ONEHOT_SYNONYMS = {''onehot'', ''OneHotCategorical''}"

definition unknown_distribution :: "string \<Rightarrow> error" where
  "unknown_distribution dst = ValueError (''Unknown distribution '' @ dst)"

subsection \<open>\<^verbatim>\<open>to_z\<close> and \<^verbatim>\<open>to_b\<close>\<close>

definition to_z_warning :: string where
  "to_z_warning = ''logits.requires_grad is False. This will likely cause an error with estimators that require z. To suppress this warning, set warn to False''"

text \<open>The result is the list of warnings issued and the value returned or the error raised.\<close>

definition to_z ::
  "real \<Rightarrow> (nat list \<Rightarrow> real) \<Rightarrow> tensor \<Rightarrow> string \<Rightarrow> bool \<Rightarrow> string list \<times> (error + tensor)" where
  "to_z eps rnd logits dst warn =
     (let w = (if warn \<and> \<not> requires_grad logits then [to_z_warning] else []);
          u = clamp_probs eps (rand_like rnd logits)
      in (w,
          if dst \<in> BERNOULLI_SYNONYMS then
            ebind (tadd logits (tlog u)) (\<lambda>s.
            ebind (tsub s (tlog1p (tneg u))) (\<lambda>z.
            Inr (set_requires_grad z True)))
          else if dst \<in> CATEGORICAL_SYNONYMS \<union> ONEHOT_SYNONYMS then
            ebind (log_softmax_last logits) (\<lambda>log_theta.
            ebind (tsub log_theta (tlog (tneg (tlog u)))) (\<lambda>z.
            Inr (set_requires_grad z True)))
          else Inl (unknown_distribution dst)))"

definition to_b :: "tensor \<Rightarrow> string \<Rightarrow> error + tensor" where
  "to_b z dst =
     (if dst \<in> BERNOULLI_SYNONYMS then
        Inr (detach (tmap (\<lambda>x. if 0 < x then 1 else 0) z))
      else if dst \<in> CATEGORICAL_SYNONYMS then
        argmax_last False z
      else if dst \<in> ONEHOT_SYNONYMS then
        ebind (argmax_last True z) (\<lambda>k. scatter_last (zeros_like z) k 1)
      else Inl (unknown_distribution dst))"


subsection \<open>Supports of the three families\<close>

definition bernoulli_support :: "tensor \<Rightarrow> bool" where
  "bernoulli_support b = list_all (\<lambda>i. elem b i = 0 \<or> elem b i = 1) (indices (shape b))"

definition categorical_support :: "nat \<Rightarrow> tensor \<Rightarrow> bool" where
  "categorical_support D b =
     list_all (\<lambda>i. list_ex (\<lambda>k. elem b i = real k) [0..<D]) (indices (shape b))"

definition one_hot :: "real list \<Rightarrow> bool" where
  "one_hot xs \<longleftrightarrow> list_all (\<lambda>x. x = 0 \<or> x = 1) xs \<and> length (filter (\<lambda>x. x = 1) xs) = 1"

definition onehot_support :: "tensor \<Rightarrow> bool" where
  "onehot_support b \<longleftrightarrow>
     shape b \<noteq> [] \<and> list_all (\<lambda>p. one_hot (row b p)) (indices (butlast (shape b)))"

subsection \<open>Conditional reparameterization: \<^verbatim>\<open>_to_z_tilde\<close>\<close>

definition to_z_tilde ::
  "real \<Rightarrow> (nat list \<Rightarrow> real) \<Rightarrow> tensor \<Rightarrow> tensor \<Rightarrow> string \<Rightarrow> error + tensor" where
  "to_z_tilde eps rnd logits b dst =
     (let v = clamp_probs eps (rand_like rnd logits) in
      if dst \<in> BERNOULLI_SYNONYMS then
        (let om_theta = tsigmoid (tneg logits) in
         ebind (tmul v (tmap (\<lambda>x. 1 - x) om_theta)) (\<lambda>t1.
         ebind (tadd t1 om_theta) (\<lambda>t2.
         ebind (tmul b t2) (\<lambda>t3.
         ebind (tmul (tmap (\<lambda>x. 1 - x) b) v) (\<lambda>t4.
         ebind (tmul t4 om_theta) (\<lambda>t5.
         ebind (tadd t3 t5) (\<lambda>v_prime.
         ebind (tadd logits (tlog v_prime)) (\<lambda>t6.
         tsub t6 (tlog1p (tneg v_prime))))))))))
      else if dst \<in> CATEGORICAL_SYNONYMS then
        (let b = long b in
         ebind (softmax_last logits) (\<lambda>theta.
         ebind (scatter_last (zeros_like logits) (unsqueeze_last b) 1) (\<lambda>mask.
         let log_v = tlog v in
         ebind (tdiv (tneg log_v) theta) (\<lambda>t1.
         ebind (gather_last log_v (unsqueeze_last b)) (\<lambda>t2.
         ebind (tsub t1 t2) (\<lambda>t3.
         twhere mask (tneg (tlog (tneg log_v))) (tneg (tlog t3))))))))
      else if dst \<in> ONEHOT_SYNONYMS then
        (let b = byte b in
         ebind (softmax_last logits) (\<lambda>theta.
         let log_v = tlog v in
         ebind (tdiv (tneg log_v) theta) (\<lambda>t1.
         ebind (argmax_last True b) (\<lambda>k.
         ebind (gather_last log_v k) (\<lambda>t2.
         ebind (tsub t1 t2) (\<lambda>t3.
         twhere b (tneg (tlog (tneg log_v))) (tneg (tlog t3))))))))
      else Inl (unknown_distribution dst))"

subsection \<open>Tensors in the differentiation graph\<close>

text \<open>
  The differentiation engine is a library. A tensor that the estimators differentiate is
  modelled as a \<open>node\<close>: its value \<open>out\<close>, and \<open>backward\<close>, the vector-Jacobian
  product onto \<open>logits\<close> that the backward pass computes for a given sensitivity seed.
  \<^verbatim>\<open>torch.autograd.grad([y], [x], grad_outputs=seed)\<close> fails unless both \<open>x\<close> and
  \<open>y\<close> are tracked; its result is tracked only with \<^verbatim>\<open>create_graph=True\<close>.
\<close>

record node =
  out :: tensor
  backward :: "tensor \<Rightarrow> error + tensor"

definition autograd_grad :: "node \<Rightarrow> tensor \<Rightarrow> tensor \<Rightarrow> bool \<Rightarrow> error + tensor" where
  "autograd_grad y x seed create_graph =
     (if \<not> requires_grad x \<or> \<not> requires_grad (out y) then Inl RuntimeError
      else ebind (backward y seed) (\<lambda>g. Inr (if create_graph then g else detach g)))"

subsection \<open>Log-probabilities of the three families\<close>

text \<open>
  \<^verbatim>\<open>torch.distributions.Bernoulli(logits=logits).log_prob(value)\<close> and its two
  categorical counterparts, in closed form, each with the backward pass of its
  primitives. They are modelled for a \<open>value\<close> in the support of the family and of the
  shape that belongs to \<open>logits\<close>.
\<close>

definition bernoulli_logp :: "real \<Rightarrow> real \<Rightarrow> real" where
  "bernoulli_logp x t = - ((1 - t) * x + ln (1 + exp (- x)))"

definition categorical_logp :: "real list \<Rightarrow> nat \<Rightarrow> real" where
  "categorical_logp xs k = xs ! k - ln (sum_list (map exp xs))"

definition Bernoulli_log_prob :: "tensor \<Rightarrow> tensor \<Rightarrow> error + node" where
  "Bernoulli_log_prob logits val =
     (if shape val \<noteq> shape logits \<or> \<not> bernoulli_support val then Inl OutsideModel
      else Inr \<lparr>out = \<lparr>shape = shape logits,
                       elem = \<lambda>i. bernoulli_logp (elem logits i) (elem val i),
                       requires_grad = requires_grad logits \<or> requires_grad val\<rparr>,
                backward = \<lambda>seed. Inr \<lparr>shape = shape logits,
                       elem = \<lambda>i. elem seed i * (elem val i - sigmoid (elem logits i)),
                       requires_grad = requires_grad logits \<or> requires_grad val\<rparr>\<rparr>)"

definition Categorical_log_prob :: "tensor \<Rightarrow> tensor \<Rightarrow> error + node" where
  "Categorical_log_prob logits val =
     (if shape logits = [] \<or> shape val \<noteq> butlast (shape logits) \<or>
         \<not> categorical_support (last (shape logits)) val then Inl OutsideModel
      else Inr \<lparr>out = \<lparr>shape = shape val,
                       elem = \<lambda>p. categorical_logp (row logits p) (nat \<lfloor>elem val p\<rfloor>),
                       requires_grad = requires_grad logits\<rparr>,
                backward = \<lambda>seed. Inr \<lparr>shape = shape logits,
                       elem = \<lambda>i. elem seed (butlast i) *
                                ((if real (last i) = elem val (butlast i) then 1 else 0)
                                 - exp (elem logits i) / sum_list (map exp (row logits (butlast i)))),
                       requires_grad = requires_grad logits\<rparr>\<rparr>)"

definition OneHotCategorical_log_prob :: "tensor \<Rightarrow> tensor \<Rightarrow> error + node" where
  "OneHotCategorical_log_prob logits val =
     (if shape val \<noteq> shape logits \<or> \<not> onehot_support val then Inl OutsideModel
      else ebind (argmax_last False val) (\<lambda>indices. Categorical_log_prob logits indices))"

subsection \<open>\<^verbatim>\<open>to_fb\<close> and \<^verbatim>\<open>reinforce\<close>\<close>

definition to_fb :: "('b \<Rightarrow> 'r) \<Rightarrow> 'b \<Rightarrow> 'r" where
  "to_fb f b = f b"

definition reinforce :: "tensor \<Rightarrow> tensor \<Rightarrow> tensor \<Rightarrow> string \<Rightarrow> error + tensor" where
  "reinforce fb b logits dst =
     (let fb = detach fb; b = detach b in
      ebind
        (if dst \<in> BERNOULLI_SYNONYMS then
           ebind (Bernoulli_log_prob logits b) (\<lambda>log_pb. Inr (log_pb, fb))
         else if dst \<in> CATEGORICAL_SYNONYMS then
           ebind (Categorical_log_prob logits b) (\<lambda>log_pb. Inr (log_pb, unsqueeze_last fb))
         else if dst \<in> ONEHOT_SYNONYMS then
           ebind (OneHotCategorical_log_prob logits b) (\<lambda>log_pb. Inr (log_pb, unsqueeze_last fb))
         else Inl (unknown_distribution dst))
        (\<lambda>(log_pb, fb).
           ebind (autograd_grad log_pb logits (ones_like (out log_pb)) False) (\<lambda>dlog_pb.
           tmul fb dlog_pb)))"

subsection \<open>\<^verbatim>\<open>relax\<close>\<close>

text \<open>
  The control variate \<open>c\<close> is any callable: it may raise and it may keep state of its
  own (type \<open>'s\<close>), which is threaded through its two calls. The result is the gradient
  estimate, or its four terms when \<open>components\<close> is set.
\<close>

datatype relax_result = Estimate tensor | Components tensor tensor tensor tensor

definition relax ::
  "real \<Rightarrow> (nat list \<Rightarrow> real) \<Rightarrow> tensor \<Rightarrow> tensor \<Rightarrow> tensor \<Rightarrow> tensor \<Rightarrow>
   (tensor \<Rightarrow> 's \<Rightarrow> (error + node) \<times> 's) \<Rightarrow> string \<Rightarrow> bool \<Rightarrow> 's \<Rightarrow>
   (error + relax_result) \<times> 's" where
  "relax eps rnd fb b logits z c dst components s0 =
     (let fb = detach fb; b = detach b in
      case to_z_tilde eps rnd logits b dst of
        Inl e \<Rightarrow> (Inl e, s0)
      | Inr z_tilde \<Rightarrow>
         (case c z s0 of
            (Inl e, s1) \<Rightarrow> (Inl e, s1)
          | (Inr c_z, s1) \<Rightarrow>
             (case c z_tilde s1 of
                (Inl e, s2) \<Rightarrow> (Inl e, s2)
              | (Inr c_z_tilde, s2) \<Rightarrow>
                 (ebind (tsub fb (out c_z_tilde)) (\<lambda>diff.
                  ebind
                    (if dst \<in> BERNOULLI_SYNONYMS then
                       ebind (Bernoulli_log_prob logits b) (\<lambda>log_pb. Inr (log_pb, diff))
                     else if dst \<in> CATEGORICAL_SYNONYMS then
                       ebind (Categorical_log_prob logits b)
                         (\<lambda>log_pb. Inr (log_pb, unsqueeze_last diff))
                     else if dst \<in> ONEHOT_SYNONYMS then
                       ebind (OneHotCategorical_log_prob logits b)
                         (\<lambda>log_pb. Inr (log_pb, unsqueeze_last diff))
                     else Inl (unknown_distribution dst))
                    (\<lambda>(log_pb, diff).
                       ebind (autograd_grad log_pb logits (ones_like (out log_pb)) False)
                         (\<lambda>dlog_pb.
                       ebind (autograd_grad c_z logits (ones_like (out c_z)) True)
                         (\<lambda>dc_z.
                       ebind (autograd_grad c_z_tilde logits (ones_like (out c_z_tilde)) True)
                         (\<lambda>dc_z_tilde.
                       if components then Inr (Components diff dlog_pb dc_z dc_z_tilde)
                       else ebind (tmul diff dlog_pb) (\<lambda>t1.
                            ebind (tadd t1 dc_z) (\<lambda>t2.
                            ebind (tsub t2 dc_z_tilde) (\<lambda>g.
                            Inr (Estimate g))))))))), s2))))"

text \<open>The estimate that the four terms stand for: \<^verbatim>\<open>diff * dlog_pb + dc_z - dc_z_tilde\<close>.\<close>

definition reconstruct :: "relax_result \<Rightarrow> error + relax_result" where
  "reconstruct r =
     (case r of
        Estimate g \<Rightarrow> Inr (Estimate g)
      | Components diff dlog_pb dc_z dc_z_tilde \<Rightarrow>
          ebind (tmul diff dlog_pb) (\<lambda>t1.
          ebind (tadd t1 dc_z) (\<lambda>t2.
          ebind (tsub t2 dc_z_tilde) (\<lambda>g.
          Inr (Estimate g)))))"

subsection \<open>\<^verbatim>\<open>REBARControlVariate\<close>\<close>

record REBARControlVariate =
  cv_dist :: string
  cv_f :: "tensor \<Rightarrow> error + tensor"
  cv_bernoulli :: bool
  start_temp :: real
  start_eta :: real
  log_temp :: tensor
  eta :: tensor

text \<open>\<^verbatim>\<open>torch.nn.Parameter(torch.Tensor(1))\<close>: one tracked element, not yet initialised.\<close>

definition new_parameter :: tensor where
  "new_parameter = \<lparr>shape = [1], elem = \<lambda>i. 0, requires_grad = True\<rparr>"

definition fill :: "tensor \<Rightarrow> real \<Rightarrow> tensor" where
  "fill t x = t\<lparr>elem := \<lambda>i. x\<rparr>"

definition reset_parameters :: "REBARControlVariate \<Rightarrow> REBARControlVariate" where
  "reset_parameters self =
     self\<lparr>log_temp := tlog (fill (log_temp self) (start_temp self)),
          eta := fill (eta self) (start_eta self)\<rparr>"

definition rebar_warning :: "string \<Rightarrow> string" where
  "rebar_warning dst = [CHR 0x27] @ dst @ [CHR 0x27] @ '' implies categorical samples are index-based, but this instance will call '' @ [CHR 0x27] @ ''f'' @ [CHR 0x27] @ '' with continuous relaxations of one-hot samples. It is likely that you want dist to be '' @ [CHR 0x27] @ ''onehot'' @ [CHR 0x27] @ '' instead. To suppress this warning, set warn=False''"

definition REBAR_init ::
  "(tensor \<Rightarrow> error + tensor) \<Rightarrow> string \<Rightarrow> real \<Rightarrow> real \<Rightarrow> bool \<Rightarrow>
   string list \<times> (error + REBARControlVariate)" where
  "REBAR_init f dst temp0 eta0 warn =
     (let new = (\<lambda>bern. reset_parameters
                  \<lparr>cv_dist = dst, cv_f = f, cv_bernoulli = bern, start_temp = temp0,
                   start_eta = eta0, log_temp = new_parameter, eta = new_parameter\<rparr>)
      in if temp0 \<le> 0 then ([], Inl (ValueError ''start_temp must be positive''))
         else if dst \<in> BERNOULLI_SYNONYMS then ([], Inr (new True))
         else if dst \<in> ONEHOT_SYNONYMS then ([], Inr (new False))
         else if dst \<in> CATEGORICAL_SYNONYMS then
           (if warn then [rebar_warning dst] else [], Inr (new False))
         else ([], Inl (unknown_distribution dst)))"

definition forward :: "REBARControlVariate \<Rightarrow> tensor \<Rightarrow> error + tensor" where
  "forward self z =
     ebind (tdiv z (texp (log_temp self))) (\<lambda>z_temp.
     if cv_bernoulli self then
       ebind (cv_f self (tsigmoid z_temp)) (\<lambda>y. tmul (eta self) y)
     else
       ebind (softmax_last z_temp) (\<lambda>sm.
       ebind (cv_f self sm) (\<lambda>y. tmul (eta self) y)))"


subsection \<open>Single precision\<close>

text \<open>
  The tensors of the program hold \<^verbatim>\<open>float32\<close> numbers, and every arithmetic operation
  rounds its result. \<open>rnd32\<close> rounds a real number to the nearest number with a
  significand of 24 bits, ties to even; the exponent is not bounded, so overflow,
  subnormal numbers, infinities and NaN stay outside the model. An operation of the
  program is the exact operation followed by \<open>rnd32\<close>; \<^verbatim>\<open>log\<close>, \<^verbatim>\<open>log1p\<close>,
  \<^verbatim>\<open>exp\<close> and \<^verbatim>\<open>sigmoid\<close> are taken as correctly rounded. Negation, comparison,
  arg-max and the conversions between 0 and 1 are exact.
\<close>

definition expo :: "real \<Rightarrow> int" where
  "expo x = \<lfloor>log 2 \<bar>x\<bar>\<rfloor>"

definition nearest_even :: "real \<Rightarrow> int" where
  "nearest_even y =
     (let f = \<lfloor>y\<rfloor> in
      if y - of_int f < 1 / 2 then f
      else if 1 / 2 < y - of_int f then f + 1
      else if even f then f else f + 1)"

definition rnd32 :: "real \<Rightarrow> real" where
  "rnd32 x =
     (if x = 0 then 0
      else of_int (nearest_even (x * 2 powr (23 - of_int (expo x))))
           * 2 powr (of_int (expo x) - 23))"

definition fadd :: "tensor \<Rightarrow> tensor \<Rightarrow> error + tensor" where
  "fadd = tbin (\<lambda>x y. rnd32 (x + y))"

definition fsub :: "tensor \<Rightarrow> tensor \<Rightarrow> error + tensor" where
  "fsub = tbin (\<lambda>x y. rnd32 (x - y))"

definition fmul :: "tensor \<Rightarrow> tensor \<Rightarrow> error + tensor" where
  "fmul = tbin (\<lambda>x y. rnd32 (x * y))"

definition fdiv :: "tensor \<Rightarrow> tensor \<Rightarrow> error + tensor" where
  "fdiv = tbin (\<lambda>x y. rnd32 (x / y))"

definition flog :: "tensor \<Rightarrow> tensor" where
  "flog = tmap (\<lambda>x. rnd32 (ln x))"

definition flog1p :: "tensor \<Rightarrow> tensor" where
  "flog1p = tmap (\<lambda>x. rnd32 (ln (1 + x)))"

definition fsigmoid :: "tensor \<Rightarrow> tensor" where
  "fsigmoid = tmap (\<lambda>x. rnd32 (sigmoid x))"

text \<open>
  \<^verbatim>\<open>torch.softmax(t, dim=-1)\<close> in single precision: the largest element of the row is
  subtracted, the exponentials are summed from the left and each is divided by the sum.
\<close>

definition softmax32_row :: "real list \<Rightarrow> real \<Rightarrow> real" where
  "softmax32_row r x =
     (let m = fold max r (hd r);
          e = (\<lambda>y. rnd32 (exp (rnd32 (y - m))));
          s = foldl (\<lambda>a y. rnd32 (a + e y)) 0 r
      in rnd32 (e x / s))"

definition softmax32_last :: "tensor \<Rightarrow> error + tensor" where
  "softmax32_last t =
     (if shape t = [] then Inl OutsideModel
      else Inr (t\<lparr>elem := \<lambda>i. softmax32_row (row t (butlast i)) (elem t i)\<rparr>))"

text \<open>
  \<^verbatim>\<open>_to_z_tilde\<close> as the program computes it, in single precision. \<open>to_z_tilde\<close> above
  is the same sequence of operations on real numbers, without the rounding.
\<close>

definition to_z_tilde32 ::
  "real \<Rightarrow> (nat list \<Rightarrow> real) \<Rightarrow> tensor \<Rightarrow> tensor \<Rightarrow> string \<Rightarrow> error + tensor" where
  "to_z_tilde32 eps rnd logits b dst =
     (let v = clamp_probs eps (rand_like rnd logits) in
      if dst \<in> BERNOULLI_SYNONYMS then
        (let om_theta = fsigmoid (tneg logits) in
         ebind (fmul v (tmap (\<lambda>x. rnd32 (1 - x)) om_theta)) (\<lambda>t1.
         ebind (fadd t1 om_theta) (\<lambda>t2.
         ebind (fmul b t2) (\<lambda>t3.
         ebind (fmul (tmap (\<lambda>x. rnd32 (1 - x)) b) v) (\<lambda>t4.
         ebind (fmul t4 om_theta) (\<lambda>t5.
         ebind (fadd t3 t5) (\<lambda>v_prime.
         ebind (fadd logits (flog v_prime)) (\<lambda>t6.
         fsub t6 (flog1p (tneg v_prime))))))))))
      else if dst \<in> CATEGORICAL_SYNONYMS then
        (let b = long b in
         ebind (softmax32_last logits) (\<lambda>theta.
         ebind (scatter_last (zeros_like logits) (unsqueeze_last b) 1) (\<lambda>mask.
         let log_v = flog v in
         ebind (fdiv (tneg log_v) theta) (\<lambda>t1.
         ebind (gather_last log_v (unsqueeze_last b)) (\<lambda>t2.
         ebind (fsub t1 t2) (\<lambda>t3.
         twhere mask (tneg (flog (tneg log_v))) (tneg (flog t3))))))))
      else if dst \<in> ONEHOT_SYNONYMS then
        (let b = byte b in
         ebind (softmax32_last logits) (\<lambda>theta.
         let log_v = flog v in
         ebind (fdiv (tneg log_v) theta) (\<lambda>t1.
         ebind (argmax_last True b) (\<lambda>k.
         ebind (gather_last log_v k) (\<lambda>t2.
         ebind (fsub t1 t2) (\<lambda>t3.
         twhere b (tneg (flog (tneg log_v))) (tneg (flog t3))))))))
      else Inl (unknown_distribution dst))"

text \<open>\<^verbatim>\<open>to_b(_to_z_tilde(logits, b, dist), dist)\<close> in single precision, and one of its elements.\<close>

definition rediscretize32 ::
  "real \<Rightarrow> (nat list \<Rightarrow> real) \<Rightarrow> tensor \<Rightarrow> tensor \<Rightarrow> string \<Rightarrow> error + tensor" where
  "rediscretize32 eps rnd logits b dst =
     ebind (to_z_tilde32 eps rnd logits b dst) (\<lambda>z_tilde. to_b z_tilde dst)"

definition result_elem :: "error + tensor \<Rightarrow> nat list \<Rightarrow> error + real" where
  "result_elem r i = ebind r (\<lambda>t. Inr (elem t i))"

subsection \<open>Example inputs\<close>

definition ex_logits :: tensor where
  "ex_logits = \<lparr>shape = [2], elem = \<lambda>i. 0, requires_grad = True\<rparr>"

definition ex_noise :: "nat list \<Rightarrow> real" where
  "ex_noise = (\<lambda>i. 1 / 2)"

definition ex_b :: tensor where
  "ex_b = \<lparr>shape = [2], elem = \<lambda>i. if i = [0] then 1 else 0, requires_grad = False\<rparr>"

definition ex_index :: tensor where
  "ex_index = \<lparr>shape = [], elem = \<lambda>i. 1, requires_grad = False\<rparr>"

definition ex_fb :: tensor where
  "ex_fb = \<lparr>shape = [2], elem = \<lambda>i. 3, requires_grad = True\<rparr>"

definition ex_fb0 :: tensor where
  "ex_fb0 = \<lparr>shape = [], elem = \<lambda>i. 3, requires_grad = True\<rparr>"

text \<open>A control variate that returns its argument and counts its calls.\<close>

definition ex_c :: "tensor \<Rightarrow> nat \<Rightarrow> (error + node) \<times> nat" where
  "ex_c x s = (Inr \<lparr>out = set_requires_grad x True, backward = \<lambda>seed. Inr seed\<rparr>, Suc s)"

definition ex_f :: "tensor \<Rightarrow> error + tensor" where
  "ex_f x = Inr x"

definition ex_log_temp :: tensor where
  "ex_log_temp = \<lparr>shape = [1], elem = \<lambda>i. 0, requires_grad = True\<rparr>"

definition ex_eta :: tensor where
  "ex_eta = \<lparr>shape = [1], elem = \<lambda>i. 2, requires_grad = True\<rparr>"

text \<open>
  A draw of the noise for two categories, \<open>1 - 1 / 2 ^ 23\<close> for the first and
  \<open>1 / 2 ^ 16\<close> for the second, and the machine epsilon \<open>1 / 2 ^ 23\<close> of single
  precision, which is the bound \<^verbatim>\<open>clamp_probs\<close> uses on \<^verbatim>\<open>float32\<close> tensors.
\<close>

definition eps32 :: real where
  "eps32 = 1 / 2 ^ 23"

definition ex_noise32 :: "nat list \<Rightarrow> real" where
  "ex_noise32 = (\<lambda>i. if i = [0] then 1 - 1 / 2 ^ 23 else 1 / 2 ^ 16)"




section \<open>Auxiliary lemmas\<close>

lemma bshape_rev_same: "bshape_rev s s = Some s"
  by (induction s) auto

lemma broadcast_shapes_same: "broadcast_shapes s s = Some s"
  by (simp add: broadcast_shapes_def bshape_rev_same)

lemma broadcast_shapes_unsq_right: "broadcast_shapes (p @ [d]) (p @ [Suc 0]) = Some (p @ [d])"
  by (simp add: broadcast_shapes_def bshape_rev_same)

lemma broadcast_shapes_unsq_left: "broadcast_shapes (p @ [Suc 0]) (p @ [d]) = Some (p @ [d])"
  by (simp add: broadcast_shapes_def bshape_rev_same)

lemma valid_length: "valid s i \<Longrightarrow> length i = length s"
  by (simp add: valid_def list_all2_lengthD)

lemma bidx_valid: "valid s i \<Longrightarrow> bidx s i = i"
proof -
  assume v: "valid s i"
  then have len: "length i = length s" by (rule valid_length)
  have "list_all2 (<) i s \<Longrightarrow> map2 (\<lambda>d k. if d = 1 then 0 else k) s i = i"
    by (induction i s rule: list_all2_induct) auto
  then show ?thesis using v len by (simp add: bidx_def valid_def)
qed

lemma set_indices: "set (indices s) = {i. valid s i}"
proof (induction s)
  case Nil
  show ?case by (auto simp: valid_def)
next
  case (Cons d ds)
  show ?case
  proof (rule set_eqI)
    fix i
    show "i \<in> set (indices (d # ds)) \<longleftrightarrow> i \<in> {i. valid (d # ds) i}"
      using Cons by (cases i) (auto simp: valid_def)
  qed
qed

lemma argmax_list_less: "xs \<noteq> [] \<Longrightarrow> argmax_list xs < length xs"
  by (induction xs rule: argmax_list.induct) (auto simp: Let_def)



lemma tags_disjoint:
  "dst \<in> CATEGORICAL_SYNONYMS \<Longrightarrow> dst \<notin> BERNOULLI_SYNONYMS"
  "dst \<in> ONEHOT_SYNONYMS \<Longrightarrow> dst \<notin> BERNOULLI_SYNONYMS"
  "dst \<in> ONEHOT_SYNONYMS \<Longrightarrow> dst \<notin> CATEGORICAL_SYNONYMS"
  by (auto simp: BERNOULLI_SYNONYMS_def CATEGORICAL_SYNONYMS_def ONEHOT_SYNONYMS_def)

lemma tbin_same_shape:
  "shape a = shape b \<Longrightarrow>
   tbin f a b = Inr \<lparr>shape = shape a,
       elem = \<lambda>i. f (elem a (bidx (shape a) i)) (elem b (bidx (shape a) i)),
       requires_grad = requires_grad a \<or> requires_grad b\<rparr>"
  by (simp add: tbin_def broadcast_shapes_same)

lemma shape_tmap [simp]: "shape (tmap f t) = shape t"
  by (simp add: tmap_def)

lemma elem_tmap [simp]: "elem (tmap f t) i = f (elem t i)"
  by (simp add: tmap_def)

lemma requires_grad_tmap [simp]: "requires_grad (tmap f t) = requires_grad t"
  by (simp add: tmap_def)

lemma shape_rand_like [simp]: "shape (rand_like rnd t) = shape t"
  by (simp add: rand_like_def)

lemma shape_clamp_probs [simp]: "shape (clamp_probs eps t) = shape t"
  by (simp add: clamp_probs_def)

lemma elem_clamp_probs:
  "elem (clamp_probs eps (rand_like rnd t)) i = min (max (rnd i) eps) (1 - eps)"
  by (simp add: clamp_probs_def rand_like_def)


lemma to_z_bernoulli:
  assumes "dst \<in> BERNOULLI_SYNONYMS"
  shows "\<exists>z. snd (to_z eps rnd logits dst warn) = Inr z \<and> shape z = shape logits \<and>
           requires_grad z \<and>
           (\<forall>i. valid (shape logits) i \<longrightarrow>
              elem z i = elem logits i + ln (elem (clamp_probs eps (rand_like rnd logits)) i)
                         - ln (1 - elem (clamp_probs eps (rand_like rnd logits)) i))"
  using assms
  by (simp add: to_z_def Let_def tadd_def tsub_def tlog_def tlog1p_def tneg_def ebind_def
      tbin_same_shape set_requires_grad_def bidx_valid)

lemma to_z_categorical:
  assumes d: "dst \<in> CATEGORICAL_SYNONYMS \<union> ONEHOT_SYNONYMS" and s: "shape logits \<noteq> []"
  shows "\<exists>z. snd (to_z eps rnd logits dst warn) = Inr z \<and> shape z = shape logits \<and>
           requires_grad z \<and>
           (\<forall>i. valid (shape logits) i \<longrightarrow>
              elem z i = elem logits i - ln (sum_list (map exp (row logits (butlast i))))
                         - ln (- ln (elem (clamp_probs eps (rand_like rnd logits)) i)))"
proof -
  from d have nb: "dst \<notin> BERNOULLI_SYNONYMS" using tags_disjoint by blast
  show ?thesis
    using d nb s
    by (simp add: to_z_def Let_def tsub_def tlog_def tneg_def ebind_def log_softmax_last_def
        tbin_same_shape set_requires_grad_def bidx_valid)
qed

lemma length_row [simp]: "length (row t p) = last (shape t)"
  by (simp add: row_def)

lemma nth_row: "d < last (shape t) \<Longrightarrow> row t p ! d = elem t (p @ [d])"
  by (simp add: row_def)

lemma argmax_row_less: "0 < last (shape t) \<Longrightarrow> argmax_list (row t p) < last (shape t)"
  using argmax_list_less [of "row t p"] by (cases "row t p = []") (auto simp: row_def)

lemma length_filter_eq_upt:
  "length (filter (\<lambda>d. d = k) [0..<n]) = (if k < n then 1 else 0)"
  by (induction n) auto

lemma one_hot_indicator:
  assumes "k < n"
  shows "one_hot (map (\<lambda>d. if d = k then 1 else 0) [0..<n])"
proof -
  have "filter (\<lambda>x. x = (1::real)) (map (\<lambda>d. if d = k then 1 else 0) [0..<n])
        = map (\<lambda>d. if d = k then 1 else 0) (filter (\<lambda>d. d = k) [0..<n])"
    by (simp add: filter_map o_def)
  then have "length (filter (\<lambda>x. x = (1::real)) (map (\<lambda>d. if d = k then 1 else 0) [0..<n])) = 1"
    using assms by (simp add: length_filter_eq_upt)
  moreover have "list_all (\<lambda>x. x = 0 \<or> x = (1::real)) (map (\<lambda>d. if d = k then 1 else 0) [0..<n])"
    by (auto simp: list_all_iff)
  ultimately show ?thesis unfolding one_hot_def by blast
qed

lemma to_b_categorical:
  assumes "dst \<in> CATEGORICAL_SYNONYMS" "shape z \<noteq> []" "0 < last (shape z)"
  shows "\<exists>b. to_b z dst = Inr b \<and> shape b = butlast (shape z) \<and>
             categorical_support (last (shape z)) b"
proof -
  have "to_b z dst = argmax_last False z"
    using assms(1) tags_disjoint(1) by (simp add: to_b_def)
  then show ?thesis using assms(2,3)
    by (simp add: argmax_last_def categorical_support_def list_all_iff list_ex_iff
        argmax_row_less)
qed

lemma to_b_onehot_eq:
  assumes "dst \<in> ONEHOT_SYNONYMS" "shape z \<noteq> []" "0 < last (shape z)"
  shows "to_b z dst = Inr \<lparr>shape = shape z,
           elem = \<lambda>i. if list_all2 (<) (butlast i) (butlast (shape z)) \<and>
                         real (argmax_list (row z (butlast i))) = real (last i)
                      then 1 else 0,
           requires_grad = False\<rparr>"
proof -
  let ?k = "\<lparr>shape = butlast (shape z) @ [1],
             elem = \<lambda>i. real (argmax_list (row z (take (length (shape z) - 1) i))),
             requires_grad = False\<rparr>"
  have am: "argmax_last True z = Inr ?k"
    using assms(2,3) by (simp add: argmax_last_def)
  have ok: "index_ok (shape (zeros_like z)) ?k"
    using assms(2,3)
    by (simp add: index_ok_def zeros_like_def list_all_iff argmax_row_less list_all2_refl)
  have "to_b z dst = ebind (argmax_last True z) (\<lambda>k. scatter_last (zeros_like z) k 1)"
    using assms(1) tags_disjoint(2,3) by (simp add: to_b_def)
  also have "\<dots> = scatter_last (zeros_like z) ?k 1"
    by (simp add: am ebind_def)
  also have "\<dots> = Inr \<lparr>shape = shape z,
           elem = \<lambda>i. if list_all2 (<) (butlast i) (butlast (shape z)) \<and>
                         real (argmax_list (row z (butlast i))) = real (last i)
                      then 1 else 0,
           requires_grad = False\<rparr>"
  proof -
    have "\<And>i. list_all2 (<) (butlast i) (butlast (shape z)) \<Longrightarrow>
            take (length (shape z) - 1) (butlast i @ [0]) = butlast i"
      by (auto dest: list_all2_lengthD)
    then show ?thesis using ok assms(2)
      by (auto simp: scatter_last_def zeros_like_def fun_eq_iff)
  qed
  finally show ?thesis .
qed

lemma to_b_onehot:
  assumes "dst \<in> ONEHOT_SYNONYMS" "shape z \<noteq> []" "0 < last (shape z)"
  shows "\<exists>b. to_b z dst = Inr b \<and> shape b = shape z \<and> onehot_support b"
proof -
  let ?b = "\<lparr>shape = shape z,
           elem = \<lambda>i. if list_all2 (<) (butlast i) (butlast (shape z)) \<and>
                         real (argmax_list (row z (butlast i))) = real (last i)
                      then 1 else 0,
           requires_grad = False\<rparr>"
  have "one_hot (row ?b p)" if "valid (butlast (shape z)) p" for p
  proof -
    have "row ?b p = map (\<lambda>d. if d = argmax_list (row z p) then 1 else 0) [0..<last (shape z)]"
      using that by (auto simp: row_def valid_def)
    then show ?thesis using one_hot_indicator [OF argmax_row_less [OF assms(3)]] by simp
  qed
  then have "onehot_support ?b"
    using assms(2) by (simp add: onehot_support_def list_all_iff set_indices)
  then show ?thesis using to_b_onehot_eq [OF assms] by simp
qed






lemma to_z_tilde_bernoulli_eq:
  assumes "dst \<in> BERNOULLI_SYNONYMS" "shape b = shape logits"
  shows "\<exists>zt. to_z_tilde eps rnd logits b dst = Inr zt \<and> shape zt = shape logits \<and>
     (\<forall>i. valid (shape logits) i \<longrightarrow>
        elem zt i =
          (let v = elem (clamp_probs eps (rand_like rnd logits)) i;
               om = sigmoid (- elem logits i);
               v' = elem b i * (v * (1 - om) + om) + (1 - elem b i) * v * om
           in elem logits i + ln v' - ln (1 - v')))"
  using assms
  apply (simp add: to_z_tilde_def Let_def tadd_def tsub_def tmul_def tlog_def tlog1p_def tneg_def
      tsigmoid_def ebind_def tbin_same_shape bidx_valid)
  apply (intro allI impI arg_cong [where f = ln])
  apply simp
  done


lemma valid_snoc_iff: "valid (q @ [n]) i \<longleftrightarrow> i \<noteq> [] \<and> valid q (butlast i) \<and> last i < n"
proof (cases i rule: rev_cases)
  case Nil
  then show ?thesis by (simp add: valid_def)
next
  case (snoc p d)
  show ?thesis
  proof (cases "length p = length q")
    case True
    then show ?thesis using snoc by (simp add: valid_def list_all2_append)
  next
    case False
    then show ?thesis using snoc by (auto simp: valid_def dest: list_all2_lengthD)
  qed
qed

lemma map2_bidx_id:
  "list_all2 (<) p q \<Longrightarrow> map2 (\<lambda>d k. if d = (1::nat) then (0::nat) else k) q p = p"
  by (induction p q rule: list_all2_induct) auto

lemma bidx_unsq: "valid q p \<Longrightarrow> bidx (q @ [Suc 0]) (p @ [d]) = p @ [0]"
proof -
  assume v: "valid q p"
  then have len: "length p = length q" by (rule valid_length)
  then show ?thesis using v map2_bidx_id [of p q] by (simp add: bidx_def valid_def)
qed

lemma trunc_real [simp]: "trunc (real k) = int k"
  by (simp add: trunc_def)



lemma sum_list_exp_nonneg: "0 \<le> sum_list (map exp (xs :: real list))"
  by (rule sum_list_nonneg) auto













lemma bernoulli_logp_deriv:
  "((\<lambda>x. bernoulli_logp x t) has_real_derivative (t - sigmoid x)) (at x)"
proof -
  have pos: "0 < 1 + exp (- x)" by (simp add: add_pos_pos)
  have d: "((\<lambda>x. - ((1 - t) * x + ln (1 + exp (- x)))) has_real_derivative
          - ((1 - t) + (- exp (- x)) / (1 + exp (- x)))) (at x)"
    using pos by (auto intro!: derivative_eq_intros simp: field_simps)
  have eq: "- ((1 - t) + (- exp (- x)) / (1 + exp (- x))) = t - sigmoid x"
    using pos by (simp add: sigmoid_def field_simps)
  from d show ?thesis unfolding bernoulli_logp_def eq .
qed

lemma sum_list_map_update:
  "d < length xs \<Longrightarrow>
   sum_list (map f (xs[d := x])) = sum_list (map f xs) - f (xs ! d) + (f x :: real)"
  by (induction xs arbitrary: d) (auto split: nat.splits)

lemma categorical_logp_deriv:
  assumes d: "d < length xs"
  shows "((\<lambda>x. categorical_logp (xs[d := x]) k) has_real_derivative
            ((if k = d then 1 else 0) - exp (xs ! d) / sum_list (map exp xs))) (at (xs ! d))"
proof -
  define C where "C = sum_list (map exp xs) - exp (xs ! d)"
  have sum: "sum_list (map exp (xs[d := x])) = C + exp x" for x
    using d by (simp add: sum_list_map_update C_def)
  have "sum_list (map exp xs) = sum_list (map exp (take d xs)) + exp (xs ! d)
          + sum_list (map exp (drop (Suc d) xs))"
    using d by (metis (no_types) append_take_drop_id Cons_nth_drop_Suc map_append
        sum_list.append sum_list.Cons list.simps(9) add.assoc)
  then have C0: "0 \<le> C"
    using sum_list_exp_nonneg [of "take d xs"] sum_list_exp_nonneg [of "drop (Suc d) xs"]
    by (simp add: C_def)
  have pos: "0 < C + exp x" for x using C0 by (simp add: add_nonneg_pos)
  have S: "sum_list (map exp xs) = C + exp (xs ! d)" by (simp add: C_def)
  show ?thesis
  proof (cases "k = d")
    case True
    have "((\<lambda>x. x - ln (C + exp x)) has_real_derivative
             (1 - exp (xs ! d) / (C + exp (xs ! d)))) (at (xs ! d))"
      using pos by (auto intro!: derivative_eq_intros simp: field_simps)
    then show ?thesis using True d by (simp add: categorical_logp_def sum S)
  next
    case False
    have "((\<lambda>x. xs ! k - ln (C + exp x)) has_real_derivative
             (0 - exp (xs ! d) / (C + exp (xs ! d)))) (at (xs ! d))"
      using pos by (auto intro!: derivative_eq_intros simp: field_simps)
    then show ?thesis using False d by (simp add: categorical_logp_def sum S)
  qed
qed


lemma detach_simps [simp]:
  "shape (detach t) = shape t" "elem (detach t) = elem t" "\<not> requires_grad (detach t)"
  by (simp_all add: detach_def)

lemma support_detach [simp]:
  "bernoulli_support (detach b) = bernoulli_support b"
  "categorical_support D (detach b) = categorical_support D b"
  "onehot_support (detach b) = onehot_support b"
  by (simp_all add: bernoulli_support_def categorical_support_def onehot_support_def row_def)

lemma tmul_same_shape:
  assumes "shape a = shape b"
  shows "\<exists>g. tmul a b = Inr g \<and> shape g = shape b \<and>
           requires_grad g = (requires_grad a \<or> requires_grad b) \<and>
           (\<forall>i. valid (shape b) i \<longrightarrow> elem g i = elem a i * elem b i)"
  using assms by (simp add: tmul_def tbin_same_shape bidx_valid)

lemma tmul_unsqueezed:
  assumes "shape b \<noteq> []" "shape a = butlast (shape b)"
  shows "\<exists>g. tmul (unsqueeze_last a) b = Inr g \<and> shape g = shape b \<and>
           requires_grad g = (requires_grad a \<or> requires_grad b) \<and>
           (\<forall>p d. valid (shape a) p \<longrightarrow> d < last (shape b) \<longrightarrow>
                elem g (p @ [d]) = elem a p * elem b (p @ [d]))"
proof -
  define q where "q = butlast (shape b)"
  define D where "D = last (shape b)"
  have sb: "shape b = q @ [D]" using assms(1) by (simp add: q_def D_def)
  have sa: "shape (unsqueeze_last a) = q @ [Suc 0]"
    using assms(2) by (simp add: unsqueeze_last_def q_def)
  let ?g = "\<lparr>shape = q @ [D],
       elem = \<lambda>i. elem (unsqueeze_last a) (bidx (q @ [Suc 0]) i) * elem b (bidx (q @ [D]) i),
       requires_grad = requires_grad (unsqueeze_last a) \<or> requires_grad b\<rparr>"
  have run: "tmul (unsqueeze_last a) b = Inr ?g"
    by (simp add: tmul_def tbin_def sa sb broadcast_shapes_unsq_left)
  have "elem ?g (p @ [d]) = elem a p * elem b (p @ [d])"
    if "valid (shape a) p" "d < last (shape b)" for p d
  proof -
    have vp: "valid q p" and dD: "d < D" using that assms(2) by (simp_all add: q_def D_def)
    have "bidx (q @ [D]) (p @ [d]) = p @ [d]"
      using vp dD by (intro bidx_valid) (simp add: valid_snoc_iff)
    moreover have "bidx (q @ [Suc 0]) (p @ [d]) = p @ [0]" using vp by (rule bidx_unsq)
    ultimately show ?thesis by (simp add: unsqueeze_last_def)
  qed
  then have el: "\<forall>p d. valid (shape a) p \<longrightarrow> d < last (shape b) \<longrightarrow>
                elem ?g (p @ [d]) = elem a p * elem b (p @ [d])" by blast
  have rgg: "requires_grad ?g = (requires_grad a \<or> requires_grad b)"
    by (simp add: unsqueeze_last_def)
  have sg: "shape ?g = shape b" by (simp add: sb)
  show ?thesis using run el rgg sg by blast
qed

lemma reinforce_bernoulli:
  assumes dst: "dst \<in> BERNOULLI_SYNONYMS" and rg: "requires_grad logits"
    and sb: "shape b = shape logits" and sup: "bernoulli_support b"
    and sf: "shape fb = shape b"
  shows "\<exists>lp g. Bernoulli_log_prob logits (detach b) = Inr lp \<and>
           reinforce fb b logits dst = Inr g \<and> shape g = shape logits \<and> \<not> requires_grad g \<and>
           (\<forall>i. valid (shape logits) i \<longrightarrow>
              elem (out lp) i = bernoulli_logp (elem logits i) (elem b i) \<and>
              elem g i = elem fb i * (elem b i - sigmoid (elem logits i)))"
proof -
  define lp where "lp = \<lparr>out = \<lparr>shape = shape logits,
                       elem = \<lambda>i. bernoulli_logp (elem logits i) (elem b i),
                       requires_grad = requires_grad logits\<rparr>,
                backward = \<lambda>seed. Inr \<lparr>shape = shape logits,
                       elem = \<lambda>i. elem seed i * (elem b i - sigmoid (elem logits i)),
                       requires_grad = requires_grad logits\<rparr>\<rparr>"
  have lp: "Bernoulli_log_prob logits (detach b) = Inr lp"
    using sb sup by (simp add: Bernoulli_log_prob_def lp_def)
  define dl where "dl = detach \<lparr>shape = shape logits,
                       elem = \<lambda>i. elem (ones_like (out lp)) i * (elem b i - sigmoid (elem logits i)),
                       requires_grad = requires_grad logits\<rparr>"
  have dl: "autograd_grad lp logits (ones_like (out lp)) False = Inr dl"
    using rg by (simp add: autograd_grad_def lp_def ebind_def dl_def)
  have sdl: "shape (detach fb) = shape dl" using sf sb by (simp add: dl_def)
  from tmul_same_shape [OF sdl] obtain g where g: "tmul (detach fb) dl = Inr g"
    "shape g = shape dl" "requires_grad g = (requires_grad (detach fb) \<or> requires_grad dl)"
    "\<forall>i. valid (shape dl) i \<longrightarrow> elem g i = elem (detach fb) i * elem dl i" by blast
  have run: "reinforce fb b logits dst = Inr g"
    using dst lp dl g(1) by (simp add: reinforce_def Let_def ebind_def)
  have "elem (out lp) i = bernoulli_logp (elem logits i) (elem b i)" for i
    by (simp add: lp_def)
  moreover have "elem g i = elem fb i * (elem b i - sigmoid (elem logits i))"
    if "valid (shape logits) i" for i
    using g(4) that by (simp add: dl_def ones_like_def)
  moreover have "shape g = shape logits" using g(2) by (simp add: dl_def)
  moreover have "\<not> requires_grad g" using g(3) by (simp add: dl_def)
  ultimately show ?thesis using lp run by blast
qed

lemma categorical_grad:
  assumes rg: "requires_grad logits" and ne: "shape logits \<noteq> []"
    and sb: "shape b = butlast (shape logits)"
    and sup: "categorical_support (last (shape logits)) b"
    and sf: "shape fb = shape b" and nrg: "\<not> requires_grad fb"
  shows "\<exists>lp dl g. Categorical_log_prob logits b = Inr lp \<and>
           autograd_grad lp logits (ones_like (out lp)) False = Inr dl \<and>
           tmul (unsqueeze_last fb) dl = Inr g \<and> shape g = shape logits \<and>
           \<not> requires_grad g \<and>
           (\<forall>p. elem (out lp) p = categorical_logp (row logits p) (nat \<lfloor>elem b p\<rfloor>)) \<and>
           (\<forall>p d. valid (shape b) p \<longrightarrow> d < last (shape logits) \<longrightarrow>
              elem g (p @ [d]) = elem fb p *
                ((if real d = elem b p then 1 else 0)
                 - exp (elem logits (p @ [d])) / sum_list (map exp (row logits p))))"
proof -
  define lp where "lp = \<lparr>out = \<lparr>shape = shape b,
                       elem = \<lambda>p. categorical_logp (row logits p) (nat \<lfloor>elem b p\<rfloor>),
                       requires_grad = requires_grad logits\<rparr>,
                backward = \<lambda>seed. Inr \<lparr>shape = shape logits,
                       elem = \<lambda>i. elem seed (butlast i) *
                                ((if real (last i) = elem b (butlast i) then 1 else 0)
                                 - exp (elem logits i) / sum_list (map exp (row logits (butlast i)))),
                       requires_grad = requires_grad logits\<rparr>\<rparr>"
  have lp: "Categorical_log_prob logits b = Inr lp"
    using ne sb sup by (simp add: Categorical_log_prob_def lp_def)
  define dl where "dl = detach \<lparr>shape = shape logits,
                       elem = \<lambda>i. elem (ones_like (out lp)) (butlast i) *
                                ((if real (last i) = elem b (butlast i) then 1 else 0)
                                 - exp (elem logits i) / sum_list (map exp (row logits (butlast i)))),
                       requires_grad = requires_grad logits\<rparr>"
  have dl: "autograd_grad lp logits (ones_like (out lp)) False = Inr dl"
    using rg by (simp add: autograd_grad_def lp_def ebind_def dl_def)
  have "shape dl \<noteq> []" "shape fb = butlast (shape dl)"
    using ne sf sb by (simp_all add: dl_def)
  from tmul_unsqueezed [OF this] obtain g where g: "tmul (unsqueeze_last fb) dl = Inr g"
    "shape g = shape dl" "requires_grad g = (requires_grad fb \<or> requires_grad dl)"
    "\<forall>p d. valid (shape fb) p \<longrightarrow> d < last (shape dl) \<longrightarrow>
        elem g (p @ [d]) = elem fb p * elem dl (p @ [d])" by blast
  have "elem g (p @ [d]) = elem fb p *
                ((if real d = elem b p then 1 else 0)
                 - exp (elem logits (p @ [d])) / sum_list (map exp (row logits p)))"
    if "valid (shape b) p" "d < last (shape logits)" for p d
    using g(4) that sf by (simp add: dl_def ones_like_def)
  moreover have "shape g = shape logits" using g(2) by (simp add: dl_def)
  moreover have "\<not> requires_grad g" using g(3) nrg by (simp add: dl_def)
  moreover have "elem (out lp) p = categorical_logp (row logits p) (nat \<lfloor>elem b p\<rfloor>)" for p
    by (simp add: lp_def)
  ultimately show ?thesis using lp dl g(1) by blast
qed


lemma reinforce_categorical:
  assumes dst: "dst \<in> CATEGORICAL_SYNONYMS" and rg: "requires_grad logits"
    and ne: "shape logits \<noteq> []" and sb: "shape b = butlast (shape logits)"
    and sup: "categorical_support (last (shape logits)) b" and sf: "shape fb = shape b"
  shows "\<exists>lp g. Categorical_log_prob logits (detach b) = Inr lp \<and>
           reinforce fb b logits dst = Inr g \<and> shape g = shape logits \<and> \<not> requires_grad g \<and>
           (\<forall>p. elem (out lp) p = categorical_logp (row logits p) (nat \<lfloor>elem b p\<rfloor>)) \<and>
           (\<forall>p d. valid (shape b) p \<longrightarrow> d < last (shape logits) \<longrightarrow>
              elem g (p @ [d]) = elem fb p *
                ((if real d = elem b p then 1 else 0)
                 - exp (elem logits (p @ [d])) / sum_list (map exp (row logits p))))"
proof -
  from categorical_grad [OF rg ne, of "detach b" "detach fb"] sb sup sf
  obtain lp dl g where *: "Categorical_log_prob logits (detach b) = Inr lp"
    "autograd_grad lp logits (ones_like (out lp)) False = Inr dl"
    "tmul (unsqueeze_last (detach fb)) dl = Inr g" "shape g = shape logits"
    "\<not> requires_grad g"
    "\<forall>p. elem (out lp) p = categorical_logp (row logits p) (nat \<lfloor>elem b p\<rfloor>)"
    "\<forall>p d. valid (shape b) p \<longrightarrow> d < last (shape logits) \<longrightarrow>
        elem g (p @ [d]) = elem fb p *
          ((if real d = elem b p then 1 else 0)
           - exp (elem logits (p @ [d])) / sum_list (map exp (row logits p)))"
    by auto
  have "reinforce fb b logits dst = Inr g"
    using dst tags_disjoint(1) [OF dst] *(1,2,3)
    by (simp add: reinforce_def Let_def ebind_def)
  then show ?thesis using * by blast
qed

lemma onehot_indices:
  assumes sup: "onehot_support b" and D: "0 < last (shape b)"
  shows "\<exists>ix. argmax_last False b = Inr ix \<and> shape ix = butlast (shape b) \<and>
           \<not> requires_grad ix \<and> categorical_support (last (shape b)) ix \<and>
           (\<forall>p. valid (butlast (shape b)) p \<longrightarrow> elem ix p = real (argmax_list (row b p)))"
proof -
  have ne: "shape b \<noteq> []" using sup by (simp add: onehot_support_def)
  let ?ix = "\<lparr>shape = butlast (shape b),
          elem = \<lambda>i. real (argmax_list (row b (take (length (shape b) - 1) i))),
          requires_grad = False\<rparr>"
  have run: "argmax_last False b = Inr ?ix" using ne D by (simp add: argmax_last_def)
  have "categorical_support (last (shape b)) ?ix"
    using argmax_row_less [OF D] by (simp add: categorical_support_def list_all_iff list_ex_iff)
  moreover have "elem ?ix p = real (argmax_list (row b p))" if "valid (butlast (shape b)) p" for p
    using valid_length [OF that] by simp
  ultimately show ?thesis using run by auto
qed

lemma reinforce_onehot:
  assumes dst: "dst \<in> ONEHOT_SYNONYMS" and rg: "requires_grad logits"
    and D: "0 < last (shape logits)" and sb: "shape b = shape logits"
    and sup: "onehot_support b" and sf: "shape fb = butlast (shape b)"
  shows "\<exists>lp g. OneHotCategorical_log_prob logits (detach b) = Inr lp \<and>
           reinforce fb b logits dst = Inr g \<and> shape g = shape logits \<and> \<not> requires_grad g \<and>
           (\<forall>p. valid (shape fb) p \<longrightarrow>
              elem (out lp) p = categorical_logp (row logits p) (argmax_list (row b p))) \<and>
           (\<forall>p d. valid (shape fb) p \<longrightarrow> d < last (shape logits) \<longrightarrow>
              elem g (p @ [d]) = elem fb p *
                ((if d = argmax_list (row b p) then 1 else 0)
                 - exp (elem logits (p @ [d])) / sum_list (map exp (row logits p))))"
proof -
  have ne: "shape logits \<noteq> []" using sup sb by (simp add: onehot_support_def)
  have rowd: "row (detach b) p = row b p" for p by (simp add: row_def)
  from onehot_indices [of "detach b"] sup D sb
  obtain ix where ix: "argmax_last False (detach b) = Inr ix" "shape ix = butlast (shape logits)"
    "\<not> requires_grad ix" "categorical_support (last (shape logits)) ix"
    "\<forall>p. valid (butlast (shape logits)) p \<longrightarrow> elem ix p = real (argmax_list (row b p))"
    by (auto simp: rowd)
  have sfi: "shape (detach fb) = shape ix" using sf sb ix(2) by simp
  from categorical_grad [OF rg ne ix(2) ix(4) sfi]
  obtain lp dl g where *: "Categorical_log_prob logits ix = Inr lp"
    "autograd_grad lp logits (ones_like (out lp)) False = Inr dl"
    "tmul (unsqueeze_last (detach fb)) dl = Inr g" "shape g = shape logits"
    "\<not> requires_grad g"
    "\<forall>p. elem (out lp) p = categorical_logp (row logits p) (nat \<lfloor>elem ix p\<rfloor>)"
    "\<forall>p d. valid (shape ix) p \<longrightarrow> d < last (shape logits) \<longrightarrow>
        elem g (p @ [d]) = elem (detach fb) p *
          ((if real d = elem ix p then 1 else 0)
           - exp (elem logits (p @ [d])) / sum_list (map exp (row logits p)))"
    by auto
  have lp: "OneHotCategorical_log_prob logits (detach b) = Inr lp"
    using sb sup ix(1) *(1) by (simp add: OneHotCategorical_log_prob_def ebind_def)
  have run: "reinforce fb b logits dst = Inr g"
    using dst tags_disjoint(2,3) [OF dst] lp *(2,3)
    by (simp add: reinforce_def Let_def ebind_def)
  have "elem (out lp) p = categorical_logp (row logits p) (argmax_list (row b p))"
    if "valid (shape fb) p" for p
    using *(6) ix(5) that sf sb by simp
  moreover have "elem g (p @ [d]) = elem fb p *
                ((if d = argmax_list (row b p) then 1 else 0)
                 - exp (elem logits (p @ [d])) / sum_list (map exp (row logits p)))"
    if "valid (shape fb) p" "d < last (shape logits)" for p d
    using *(7) ix(5) ix(2) that sf sb by simp
  ultimately show ?thesis using lp run *(4,5) by blast
qed

lemma ebind_Inr: "ebind m f = Inr y \<longleftrightarrow> (\<exists>x. m = Inr x \<and> f x = Inr y)"
  by (cases m) (simp_all add: ebind_def)

lemma ebind_Inl [simp]: "ebind (Inl e) f = Inl e"
  by (simp add: ebind_def)

lemma tbin_requires_grad:
  "tbin f a b = Inr g \<Longrightarrow> requires_grad g = (requires_grad a \<or> requires_grad b)"
  by (auto simp: tbin_def split: option.splits)

lemma autograd_grad_untracked:
  "autograd_grad y x seed False = Inr g \<Longrightarrow> \<not> requires_grad g"
  by (auto simp: autograd_grad_def ebind_Inr split: if_splits)


lemma broadcast_shapes_one: "s \<noteq> [] \<Longrightarrow> broadcast_shapes s [Suc 0] = Some s"
proof -
  assume "s \<noteq> []"
  then obtain x xs where r: "rev s = x # xs" by (cases "rev s") auto
  have "bshape_rev xs [] = Some xs" by (cases xs) auto
  then have "bshape_rev (rev s) [Suc 0] = Some (rev s)" using r by simp
  then show ?thesis by (simp add: broadcast_shapes_def)
qed

lemma bidx_one: "i \<noteq> [] \<Longrightarrow> bidx [Suc 0] i = [0]"
proof -
  assume "i \<noteq> []"
  then have "drop (length i - Suc 0) i = [last i]"
    by (cases i rule: rev_cases) auto
  then show ?thesis by (simp add: bidx_def)
qed

lemma tdiv_temperature:
  assumes "shape lt = [1]" "shape x \<noteq> []"
  shows "\<exists>xt. tdiv x (texp lt) = Inr xt \<and> shape xt = shape x \<and>
           (\<forall>i. valid (shape x) i \<longrightarrow> elem xt i = elem x i / exp (elem lt [0]))"
proof -
  have "i \<noteq> []" if "valid (shape x) i" for i
    using valid_length [OF that] assms(2) by auto
  then show ?thesis using assms
    by (simp add: tdiv_def tbin_def texp_def broadcast_shapes_one bidx_one bidx_valid)
qed

lemma log_prob_backward_shape:
  assumes "Bernoulli_log_prob logits b = Inr lp \<or> Categorical_log_prob logits b = Inr lp \<or>
           OneHotCategorical_log_prob logits b = Inr lp"
    and "autograd_grad lp logits seed cg = Inr g"
  shows "shape g = shape logits"
  using assms
  by (auto simp: Bernoulli_log_prob_def Categorical_log_prob_def OneHotCategorical_log_prob_def
      autograd_grad_def ebind_Inr split: if_splits)

lemma relax_components_run:
  assumes "relax eps rnd fb b logits z c dst True s0
             = (Inr (Components diff dlog_pb dc_z dc_z_tilde), s1)"
  shows "\<exists>lp seed. autograd_grad lp logits seed False = Inr dlog_pb \<and>
           (dst \<in> BERNOULLI_SYNONYMS \<and> Bernoulli_log_prob logits (detach b) = Inr lp \<or>
            dst \<notin> BERNOULLI_SYNONYMS \<and> shape logits \<noteq> [] \<and>
            (Categorical_log_prob logits (detach b) = Inr lp \<or>
             OneHotCategorical_log_prob logits (detach b) = Inr lp))"
proof -
  from assms obtain lp where
    dl: "autograd_grad lp logits (ones_like (out lp)) False = Inr dlog_pb"
    and lp: "dst \<in> BERNOULLI_SYNONYMS \<and> Bernoulli_log_prob logits (detach b) = Inr lp \<or>
         dst \<notin> BERNOULLI_SYNONYMS \<and>
         (Categorical_log_prob logits (detach b) = Inr lp \<or>
          OneHotCategorical_log_prob logits (detach b) = Inr lp)"
    by (auto simp: relax_def Let_def ebind_Inr split: sum.splits prod.splits if_splits)
  have "shape logits \<noteq> []"
    if "Categorical_log_prob logits (detach b) = Inr lp \<or>
        OneHotCategorical_log_prob logits (detach b) = Inr lp"
    using that
    by (auto simp: Categorical_log_prob_def OneHotCategorical_log_prob_def onehot_support_def
        ebind_Inr split: if_splits)
  then show ?thesis using dl lp by blast
qed

lemma relax_components_eq:
  "fst (relax eps rnd fb b logits z c dst False s0)
     = ebind (fst (relax eps rnd fb b logits z c dst True s0)) reconstruct"
  "snd (relax eps rnd fb b logits z c dst False s0)
     = snd (relax eps rnd fb b logits z c dst True s0)"
  by (auto simp: relax_def Let_def ebind_def reconstruct_def split: sum.splits prod.splits)

lemma reconstruct_shape:
  assumes sl: "shape dlog_pb = s" and sz: "shape dc_z = s" and szt: "shape dc_z_tilde = s"
    and sd: "shape diff = s \<or> s \<noteq> [] \<and> shape diff = butlast s @ [1]"
  shows "\<exists>g. reconstruct (Components diff dlog_pb dc_z dc_z_tilde) = Inr (Estimate g) \<and>
             shape g = s"
proof -
  have "broadcast_shapes (shape diff) s = Some s"
  proof -
    have "broadcast_shapes (butlast s @ [Suc 0]) (butlast s @ [last s]) = Some (butlast s @ [last s])"
      by (rule broadcast_shapes_unsq_left)
    then show ?thesis using sd by (auto simp: broadcast_shapes_same)
  qed
  then show ?thesis using sl sz szt
    by (simp add: reconstruct_def tmul_def tadd_def tsub_def tbin_def ebind_def
        broadcast_shapes_same)
qed

subsection \<open>Single precision\<close>

lemma expo_eq:
  assumes "2 powr of_int e \<le> \<bar>x\<bar>" "\<bar>x\<bar> < 2 powr (of_int e + 1)"
  shows "expo x = e"
proof -
  have "(0 :: real) < 2 powr of_int e" by simp
  then have "0 < \<bar>x\<bar>" using assms(1) by linarith
  then show ?thesis
    using assms floor_log_eq_powr_iff [of "\<bar>x\<bar>" 2 e] by (simp add: expo_def)
qed

lemma nearest_even_near:
  assumes "\<bar>y - of_int k\<bar> < 1 / 2"
  shows "nearest_even y = k"
proof (cases "of_int k \<le> y")
  case True
  then have "\<lfloor>y\<rfloor> = k" using assms by (intro floor_unique) auto
  then show ?thesis using assms True by (simp add: nearest_even_def Let_def)
next
  case False
  then have f: "\<lfloor>y\<rfloor> = k - 1" using assms by (intro floor_unique) auto
  have "1 / 2 < y - of_int (k - 1)" using assms False by auto
  then show ?thesis using f by (simp add: nearest_even_def Let_def)
qed

lemma nearest_even_bounds:
  assumes "of_int A \<le> y" "y \<le> of_int B"
  shows "A \<le> nearest_even y \<and> nearest_even y \<le> B"
proof -
  have lo: "A \<le> \<lfloor>y\<rfloor>" using assms(1) by (simp add: le_floor_iff)
  have up: "nearest_even y \<le> B"
  proof (cases "y = of_int B")
    case True
    then have "nearest_even y = B" by (intro nearest_even_near) simp
    then show ?thesis by simp
  next
    case False
    then have "y < of_int B" using assms(2) by simp
    then have "\<lfloor>y\<rfloor> < B" by (simp add: floor_less_iff)
    then show ?thesis by (auto simp: nearest_even_def Let_def)
  qed
  have "\<lfloor>y\<rfloor> \<le> nearest_even y" by (auto simp: nearest_even_def Let_def)
  then show ?thesis using lo up by simp
qed

lemma rnd32_binade:
  assumes "2 powr of_int e \<le> \<bar>x\<bar>" "\<bar>x\<bar> < 2 powr (of_int e + 1)"
  shows "rnd32 x = of_int (nearest_even (x * 2 powr (23 - of_int e))) * 2 powr (of_int e - 23)"
proof -
  have "(0 :: real) < 2 powr of_int e" by simp
  then have "0 < \<bar>x\<bar>" using assms(1) by linarith
  then have "x \<noteq> 0" by simp
  then show ?thesis using expo_eq [OF assms] by (simp add: rnd32_def)
qed

lemma rnd32_zero [simp]: "rnd32 0 = 0"
  by (simp add: rnd32_def)

text \<open>Rounding inside one binade: the result stays between the grid points around it.\<close>

lemma rnd32_binade_bounds:
  assumes "2 powr of_int e \<le> \<bar>x\<bar>" "\<bar>x\<bar> < 2 powr (of_int e + 1)"
    and "of_int A \<le> x * 2 powr (23 - of_int e)" "x * 2 powr (23 - of_int e) \<le> of_int B"
  shows "of_int A * 2 powr (of_int e - 23) \<le> rnd32 x"
    and "rnd32 x \<le> of_int B * 2 powr (of_int e - 23)"
proof -
  let ?n = "nearest_even (x * 2 powr (23 - of_int e))"
  have r: "rnd32 x = of_int ?n * 2 powr (of_int e - 23)"
    using assms(1,2) by (rule rnd32_binade)
  from nearest_even_bounds [OF assms(3,4)] have "A \<le> ?n" "?n \<le> B" by simp_all
  then have "(of_int A :: real) \<le> of_int ?n" "(of_int ?n :: real) \<le> of_int B" by simp_all
  then show "of_int A * 2 powr (of_int e - 23) \<le> rnd32 x"
    and "rnd32 x \<le> of_int B * 2 powr (of_int e - 23)"
    unfolding r by (simp_all add: mult_right_mono)
qed

lemma rnd32_binade_near:
  assumes "2 powr of_int e \<le> \<bar>x\<bar>" "\<bar>x\<bar> < 2 powr (of_int e + 1)"
    and "\<bar>x * 2 powr (23 - of_int e) - of_int k\<bar> < 1 / 2"
  shows "rnd32 x = of_int k * 2 powr (of_int e - 23)"
  using rnd32_binade [OF assms(1,2)] nearest_even_near [OF assms(3)] by simp

lemma rnd32_one [simp]: "rnd32 1 = 1"
  using rnd32_binade_near [of 0 1 8388608] by (simp add: powr_minus_divide)

lemma rnd32_two [simp]: "rnd32 2 = 2"
  using rnd32_binade_near [of 1 2 8388608] by (simp add: powr_minus_divide)

lemma rnd32_half [simp]: "rnd32 (1 / 2) = 1 / 2"
  using rnd32_binade_near [of "- 1" "1 / 2" 8388608] by (simp add: powr_minus_divide)

lemma softmax32_row_zeros: "softmax32_row [0, 0] 0 = 1 / 2"
  by (simp add: softmax32_row_def Let_def)

lemma ln_two_bounds: "1 / 2 \<le> ln (2 :: real)" "ln (2 :: real) \<le> 3 / 4"
proof -
  have "ln (1 / 2 :: real) \<le> 1 / 2 - 1" by (rule ln_le_minus_one) simp
  then show "1 / 2 \<le> ln (2 :: real)" by (simp add: ln_div)
  have "(2 :: real) \<le> 1 + 3 / 4 + (3 / 4)\<^sup>2 / 2" by (simp add: power2_eq_square)
  also have "\<dots> \<le> exp (3 / 4)" by (rule exp_lower_Taylor_quadratic) simp
  finally have "ln (2 :: real) \<le> ln (exp (3 / 4))" by (subst ln_le_cancel_iff) simp_all
  then show "ln (2 :: real) \<le> 3 / 4" by simp
qed

lemma ln_near_one:
  "- (3 / 2) / 2 ^ 23 \<le> ln (1 - 1 / 2 ^ 23 :: real)" "ln (1 - 1 / 2 ^ 23 :: real) \<le> - 1 / 2 ^ 23"
proof -
  have "ln (1 - 1 / 2 ^ 23 :: real) \<le> (1 - 1 / 2 ^ 23) - 1" by (rule ln_le_minus_one) simp
  then show "ln (1 - 1 / 2 ^ 23 :: real) \<le> - 1 / 2 ^ 23" by simp
  have "ln (1 / (1 - 1 / 2 ^ 23) :: real) \<le> 1 / (1 - 1 / 2 ^ 23) - 1"
    by (rule ln_le_minus_one) simp
  moreover have "ln (1 / (1 - 1 / 2 ^ 23) :: real) = - ln (1 - 1 / 2 ^ 23)"
    by (subst ln_div) simp_all
  moreover have "1 / (1 - 1 / 2 ^ 23) - 1 \<le> (3 / 2) / (2 ^ 23 :: real)" by simp
  ultimately show "- (3 / 2) / 2 ^ 23 \<le> ln (1 - 1 / 2 ^ 23 :: real)" by simp
qed

text \<open>The rounded logarithms of the two noise values, and the sum that absorbs.\<close>

lemma rnd32_log_near_one:
  "- (3 / 2) / 2 ^ 23 \<le> rnd32 (ln (1 - 1 / 2 ^ 23))" "rnd32 (ln (1 - 1 / 2 ^ 23)) \<le> - 1 / 2 ^ 23"
proof -
  define x where "x = ln (1 - 1 / 2 ^ 23 :: real)"
  have b: "- (3 / 2) / 2 ^ 23 \<le> x" "x \<le> - 1 / 2 ^ 23" unfolding x_def by (rule ln_near_one)+
  have ax: "\<bar>x\<bar> = - x" using b(2) by simp
  have 1: "2 powr of_int (- 23) \<le> \<bar>x\<bar>"
    unfolding ax using b(2) by (simp add: powr_minus_divide)
  have 2: "\<bar>x\<bar> < 2 powr (of_int (- 23) + 1)"
    unfolding ax using b(1) by (simp add: powr_minus_divide)
  have 3: "of_int (- 12582912) \<le> x * 2 powr (23 - of_int (- 23))" using b(1) by simp
  have 4: "x * 2 powr (23 - of_int (- 23)) \<le> of_int (- 8388608)" using b(2) by simp
  from rnd32_binade_bounds [OF 1 2 3 4]
  show "- (3 / 2) / 2 ^ 23 \<le> rnd32 (ln (1 - 1 / 2 ^ 23))"
    "rnd32 (ln (1 - 1 / 2 ^ 23)) \<le> - 1 / 2 ^ 23"
    unfolding x_def by (simp_all add: powr_minus_divide)
qed

lemma rnd32_small_quotient:
  assumes "- (3 / 2) / 2 ^ 23 \<le> t" "t \<le> - 1 / 2 ^ 23"
  shows "0 < rnd32 (- t / (1 / 2))" "rnd32 (- t / (1 / 2)) \<le> 3 / 2 ^ 23"
proof -
  define y where "y = - t / (1 / 2)"
  have b: "1 / 2 ^ 22 \<le> y" "y \<le> 3 / 2 ^ 23" using assms by (simp_all add: y_def)
  have p: "(0 :: real) < 1 / 2 ^ 22" by simp
  have ay: "\<bar>y\<bar> = y" using b(1) p by linarith
  have 1: "2 powr of_int (- 22) \<le> \<bar>y\<bar>"
    unfolding ay using b(1) by (simp add: powr_minus_divide)
  have 2: "\<bar>y\<bar> < 2 powr (of_int (- 22) + 1)"
    unfolding ay using b(2) by (simp add: powr_minus_divide)
  have 3: "of_int 8388608 \<le> y * 2 powr (23 - of_int (- 22))" using b(1) by simp
  have 4: "y * 2 powr (23 - of_int (- 22)) \<le> of_int 12582912" using b(2) by simp
  from rnd32_binade_bounds [OF 1 2 3 4]
  have "1 / 2 ^ 22 \<le> rnd32 y" "rnd32 y \<le> 3 / 2 ^ 23"
    by (simp_all add: powr_minus_divide)
  then show "0 < rnd32 (- t / (1 / 2))" "rnd32 (- t / (1 / 2)) \<le> 3 / 2 ^ 23"
    unfolding y_def using p by linarith+
qed

lemma rnd32_absorbs:
  assumes a: "0 < a" "a \<le> 3 / 2 ^ 23"
  shows "rnd32 (a - rnd32 (ln (1 / 2 ^ 16))) = - rnd32 (ln (1 / 2 ^ 16))"
proof -
  define x where "x = ln (1 / 2 ^ 16 :: real)"
  have "ln ((2 :: real) ^ 16) = 16 * ln 2" using ln_realpow [of 2 16] by simp
  then have x: "x = - (16 * ln 2)" by (simp add: x_def ln_div)
  have b: "- 12 \<le> x" "x \<le> - 8" using ln_two_bounds unfolding x by simp_all
  have ax: "\<bar>x\<bar> = - x" using b(2) by simp
  have 1: "2 powr of_int 3 \<le> \<bar>x\<bar>" unfolding ax using b(2) by simp
  have 2: "\<bar>x\<bar> < 2 powr (of_int 3 + 1)" unfolding ax using b(1) by simp
  define K where "K = nearest_even (x * 2 powr (23 - of_int 3))"
  have t: "rnd32 x = of_int K / 2 ^ 20"
    using rnd32_binade [OF 1 2] by (simp add: K_def powr_minus_divide)
  have "of_int (- 12582912) \<le> x * 2 powr (23 - of_int 3)" using b(1) by simp
  moreover have "x * 2 powr (23 - of_int 3) \<le> of_int (- 8388608)" using b(2) by simp
  ultimately have "- 12582912 \<le> K \<and> K \<le> - 8388608"
    unfolding K_def by (rule nearest_even_bounds)
  then have Kr: "- 12582912 \<le> (of_int K :: real)" "(of_int K :: real) \<le> - 8388608"
    by linarith+
  define s where "s = a - of_int K / 2 ^ 20"
  have sb: "8 \<le> s" "s < 16" using a Kr by (simp_all add: s_def field_simps)
  have as: "\<bar>s\<bar> = s" using sb(1) by simp
  have 5: "2 powr of_int 3 \<le> \<bar>s\<bar>" unfolding as using sb(1) by simp
  have 6: "\<bar>s\<bar> < 2 powr (of_int 3 + 1)" unfolding as using sb(2) by simp
  have "s * 2 powr (23 - of_int 3) - of_int (- K) = a * 2 ^ 20"
    by (simp add: s_def field_simps)
  moreover have "\<bar>a * 2 ^ 20\<bar> < 1 / 2" using a by simp
  ultimately have 7: "\<bar>s * 2 powr (23 - of_int 3) - of_int (- K)\<bar> < 1 / 2" by simp
  from rnd32_binade_near [OF 5 6 7] have "rnd32 s = - (of_int K / 2 ^ 20)"
    by (simp add: powr_minus_divide)
  then have "rnd32 (a - rnd32 x) = - rnd32 x" unfolding s_def t [symmetric] .
  then show ?thesis by (simp only: x_def)
qed

lemma to_z_tilde32_categorical_eq:
  assumes dst: "dst \<in> CATEGORICAL_SYNONYMS"
    and ne: "shape logits \<noteq> []"
    and sb: "shape b = butlast (shape logits)"
    and sup: "categorical_support (last (shape logits)) b"
  shows "\<exists>zt. to_z_tilde32 eps rnd logits b dst = Inr zt \<and> shape zt = shape logits \<and>
     (\<forall>p d. valid (shape b) p \<longrightarrow> d < last (shape logits) \<longrightarrow>
        elem zt (p @ [d]) =
          (let v = elem (clamp_probs eps (rand_like rnd logits));
               k = nat \<lfloor>elem b p\<rfloor>
           in if d = k then - rnd32 (ln (- rnd32 (ln (v (p @ [d])))))
              else - rnd32 (ln (rnd32 (rnd32 (- rnd32 (ln (v (p @ [d])))
                           / softmax32_row (row logits p) (elem logits (p @ [d])))
                         - rnd32 (ln (v (p @ [k]))))))))"
proof -
  define D where "D = last (shape logits)"
  define q where "q = butlast (shape logits)"
  have s: "shape logits = q @ [D]" using ne by (simp add: q_def D_def)
  have sbq: "shape b = q" using sb by (simp add: q_def)
  define v where "v = clamp_probs eps (rand_like rnd logits)"
  define log_v where "log_v = flog v"
  define idx where "idx = unsqueeze_last (long b)"
  define theta where "theta = logits\<lparr>elem := \<lambda>i.
     softmax32_row (row logits (butlast i)) (elem logits i)\<rparr>"
  have sv: "shape log_v = q @ [D]" by (simp add: log_v_def v_def flog_def s)
  have sidx: "shape idx = q @ [1]" by (simp add: idx_def unsqueeze_last_def long_def sbq)
  have bval: "\<exists>k<D. elem b p = real k" if "valid q p" for p
    using sup that by (auto simp: categorical_support_def list_all_iff list_ex_iff set_indices sbq D_def)
  have idx_elem: "elem idx i = real_of_int (trunc (elem b (butlast i)))" for i
    by (simp add: idx_def unsqueeze_last_def long_def)
  have ok: "index_ok (q @ [D]) idx"
  proof -
    have "0 \<le> elem idx i \<and> elem idx i < real D" if "valid (q @ [1]) i" for i
    proof -
      from that have "valid q (butlast i)" by (simp add: valid_snoc_iff)
      from bval [OF this] show ?thesis by (auto simp: idx_elem)
    qed
    then show ?thesis
      by (simp add: index_ok_def sidx list_all_iff set_indices list_all2_refl)
  qed
  have theta: "softmax32_last logits = Inr theta"
    using ne by (simp add: softmax32_last_def theta_def)
  define mask where "mask = (zeros_like logits)\<lparr>elem := \<lambda>i.
       if list_all2 (<) (butlast i) (butlast (shape idx)) \<and>
          list_ex (\<lambda>j. elem idx (butlast i @ [j]) = real (last i)) [0..<last (shape idx)]
       then 1 else elem (zeros_like logits) i\<rparr>"
  have mask: "scatter_last (zeros_like logits) idx 1 = Inr mask"
    using ok by (simp add: scatter_last_def mask_def zeros_like_def s sidx cong: if_cong)
  define t1 where "t1 = \<lparr>shape = q @ [D],
       elem = \<lambda>i. rnd32 (elem (tneg log_v) (bidx (q @ [D]) i) / elem theta (bidx (q @ [D]) i)),
       requires_grad = requires_grad (tneg log_v) \<or> requires_grad theta\<rparr>"
  have t1: "fdiv (tneg log_v) theta = Inr t1"
    by (simp add: fdiv_def tbin_def tneg_def sv theta_def s broadcast_shapes_same t1_def)
  define t2 where "t2 = \<lparr>shape = shape idx,
       elem = \<lambda>i. elem log_v (butlast i @ [nat \<lfloor>elem idx i\<rfloor>]),
       requires_grad = requires_grad log_v\<rparr>"
  have t2: "gather_last log_v idx = Inr t2"
    using ok by (simp add: gather_last_def sv sidx t2_def)
  define t3 where "t3 = \<lparr>shape = q @ [D],
       elem = \<lambda>i. rnd32 (elem t1 (bidx (q @ [D]) i) - elem t2 (bidx (q @ [1]) i)),
       requires_grad = requires_grad t1 \<or> requires_grad t2\<rparr>"
  have t3: "fsub t1 t2 = Inr t3"
    by (simp add: fsub_def tbin_def t1_def t2_def sidx broadcast_shapes_unsq_right t3_def)
  define x where "x = tneg (flog (tneg log_v))"
  define y where "y = tneg (flog t3)"
  define zt where "zt = \<lparr>shape = q @ [D],
       elem = \<lambda>i. if elem mask (bidx (q @ [D]) i) \<noteq> 0
                  then elem x (bidx (q @ [D]) i) else elem y (bidx (q @ [D]) i),
       requires_grad = requires_grad x \<or> requires_grad y\<rparr>"
  have smask: "shape mask = q @ [D]" by (simp add: mask_def zeros_like_def s)
  have sx: "shape x = q @ [D]" by (simp add: x_def tneg_def flog_def sv)
  have sy: "shape y = q @ [D]" by (simp add: y_def tneg_def flog_def t3_def)
  have zt: "twhere mask x y = Inr zt"
    by (simp add: twhere_def smask sx sy broadcast_shapes_same zt_def cong: if_cong)
  have run: "to_z_tilde32 eps rnd logits b dst = Inr zt"
    using dst tags_disjoint(1) [OF dst] theta mask t1 t2 t3 zt
    by (simp add: to_z_tilde32_def Let_def ebind_def v_def [symmetric] log_v_def [symmetric]
        idx_def [symmetric] x_def [symmetric] y_def [symmetric])
  have el: "elem zt (p @ [d]) =
          (let v = elem (clamp_probs eps (rand_like rnd logits));
               k = nat \<lfloor>elem b p\<rfloor>
           in if d = k then - rnd32 (ln (- rnd32 (ln (v (p @ [d])))))
              else - rnd32 (ln (rnd32 (rnd32 (- rnd32 (ln (v (p @ [d])))
                           / softmax32_row (row logits p) (elem logits (p @ [d])))
                         - rnd32 (ln (v (p @ [k])))))))"
    if vp0: "valid (shape b) p" and d0: "d < last (shape logits)" for p d
  proof -
    have vp: "valid q p" using vp0 by (simp add: sbq)
    have d: "d < D" using d0 by (simp add: D_def)
    from bval [OF vp] obtain k where k: "k < D" "elem b p = real k" by blast
    have b1: "bidx (q @ [D]) (p @ [e]) = p @ [e]" if "e < D" for e
      using vp that by (intro bidx_valid) (simp add: valid_snoc_iff)
    have b2: "bidx (q @ [Suc 0]) (p @ [d]) = p @ [0]" using vp by (rule bidx_unsq)
    have m: "elem mask (p @ [d]) = (if d = k then 1 else 0)"
      using vp k by (auto simp: mask_def sidx idx_elem zeros_like_def valid_def)
    have e_x: "elem x (p @ [e]) = - rnd32 (ln (- rnd32 (ln (elem v (p @ [e])))))" for e
      by (simp add: x_def tneg_def flog_def log_v_def)
    have e_th: "elem theta (p @ [d])
                = softmax32_row (row logits p) (elem logits (p @ [d]))"
      by (simp add: theta_def)
    have e_t1: "elem t1 (p @ [d]) = rnd32 (- rnd32 (ln (elem v (p @ [d]))) / elem theta (p @ [d]))"
      using d by (simp add: t1_def b1 tneg_def log_v_def flog_def)
    have e_t2: "elem t2 (p @ [0]) = rnd32 (ln (elem v (p @ [k])))"
      using k by (simp add: t2_def idx_elem log_v_def flog_def)
    have e_t3: "elem t3 (p @ [d]) = rnd32 (elem t1 (p @ [d]) - elem t2 (p @ [0]))"
      using d by (simp add: t3_def b1 b2)
    have e_y: "elem y (p @ [d]) = - rnd32 (ln (elem t3 (p @ [d])))"
      by (simp add: y_def tneg_def flog_def)
    have e_zt: "elem zt (p @ [d])
                = (if elem mask (p @ [d]) \<noteq> 0 then elem x (p @ [d]) else elem y (p @ [d]))"
      using d by (simp add: zt_def b1)
    have "elem zt (p @ [d])
          = (if d = k then - rnd32 (ln (- rnd32 (ln (elem v (p @ [d])))))
             else - rnd32 (ln (rnd32 (rnd32 (- rnd32 (ln (elem v (p @ [d])))
                    / softmax32_row (row logits p) (elem logits (p @ [d])))
                    - rnd32 (ln (elem v (p @ [k])))))))"
      by (simp add: e_zt m e_x e_y e_t3 e_t1 e_th e_t2)
    then show ?thesis using k by (simp add: Let_def v_def)
  qed
  have szt: "shape zt = shape logits" by (simp add: zt_def s)
  show ?thesis using run szt el by blast
qed











section \<open>The claims\<close>

lemma upt_0_2: "[0..<2] = [0, Suc 0]"
  by (simp add: numeral_2_eq_2)

lemma ex_simps:
  "shape ex_logits = [2]" "requires_grad ex_logits" "shape ex_b = [2]" "shape ex_index = []"
  "shape ex_fb = [2]" "shape ex_fb0 = []"
  "bernoulli_support ex_b" "onehot_support ex_b" "categorical_support 2 ex_index"
  "''bern'' \<in> BERNOULLI_SYNONYMS" "''cat'' \<in> CATEGORICAL_SYNONYMS"
  "''onehot'' \<in> ONEHOT_SYNONYMS"
  by (simp_all add: ex_logits_def ex_b_def ex_index_def ex_fb_def ex_fb0_def bernoulli_support_def
      onehot_support_def categorical_support_def one_hot_def row_def upt_0_2
      BERNOULLI_SYNONYMS_def CATEGORICAL_SYNONYMS_def ONEHOT_SYNONYMS_def)

text \<open>
  C4. Noise injection: with the clamped uniform draw \<open>u\<close> of the shape of \<open>logits\<close>,
  \<open>to_z\<close> returns \<open>logits + log u - log (1 - u)\<close> for a Bernoulli tag and
  \<open>log_softmax logits - log (- log u)\<close> for a Categorical or OneHotCategorical tag, and
  the returned tensor requires gradient tracking.
\<close>

theorem to_z_formula:
  "(dst \<in> BERNOULLI_SYNONYMS \<longrightarrow>
      (\<exists>z. snd (to_z eps rnd logits dst warn) = Inr z \<and> shape z = shape logits \<and>
           requires_grad z \<and>
           (\<forall>i. valid (shape logits) i \<longrightarrow>
              elem z i = elem logits i + ln (elem (clamp_probs eps (rand_like rnd logits)) i)
                         - ln (1 - elem (clamp_probs eps (rand_like rnd logits)) i)))) \<and>
   (dst \<in> CATEGORICAL_SYNONYMS \<union> ONEHOT_SYNONYMS \<longrightarrow> shape logits \<noteq> [] \<longrightarrow>
      (\<exists>z. snd (to_z eps rnd logits dst warn) = Inr z \<and> shape z = shape logits \<and>
           requires_grad z \<and>
           (\<forall>i. valid (shape logits) i \<longrightarrow>
              elem z i = elem logits i - ln (sum_list (map exp (row logits (butlast i))))
                         - ln (- ln (elem (clamp_probs eps (rand_like rnd logits)) i)))))"
  using to_z_bernoulli [of dst eps rnd logits warn] to_z_categorical [of dst logits eps rnd warn]
  by blast

theorem to_z_formula_witness:
  "''bern'' \<in> BERNOULLI_SYNONYMS \<and> ''cat'' \<in> CATEGORICAL_SYNONYMS \<union> ONEHOT_SYNONYMS \<and>
   shape ex_logits \<noteq> [] \<and> valid (shape ex_logits) [0] \<and>
   (\<exists>z. snd (to_z (1 / 8) ex_noise ex_logits ''bern'' True) = Inr z \<and> requires_grad z \<and>
        elem z [0] = 0) \<and>
   (\<exists>z. snd (to_z (1 / 8) ex_noise ex_logits ''cat'' True) = Inr z \<and> requires_grad z \<and>
        elem z [0] = - ln 2 - ln (ln 2))"
proof -
  have v: "valid (shape ex_logits) [0]" by (simp add: valid_def ex_simps)
  have u: "elem (clamp_probs (1 / 8) (rand_like ex_noise ex_logits)) i = 1 / 2" for i
    by (simp add: elem_clamp_probs ex_noise_def)
  have r: "row ex_logits [] = [0, 0]" by (simp add: row_def ex_logits_def upt_0_2)
  have l: "elem ex_logits i = 0" for i by (simp add: ex_logits_def)
  from to_z_formula [of "''bern''" "1 / 8" ex_noise ex_logits True]
  obtain z where "snd (to_z (1 / 8) ex_noise ex_logits ''bern'' True) = Inr z"
    "requires_grad z" "elem z [0] = 0"
    using v by (auto simp: ex_simps u l)
  moreover from to_z_formula [of "''cat''" "1 / 8" ex_noise ex_logits True]
  obtain z' where "snd (to_z (1 / 8) ex_noise ex_logits ''cat'' True) = Inr z'"
    "requires_grad z'" "elem z' [0] = - ln 2 - ln (ln 2)"
    using v by (auto simp: ex_simps u l r ln_div)
  ultimately show ?thesis using v by (auto simp: ex_simps)
qed


text \<open>
  C6. For every supported tag, \<open>to_b (to_z logits)\<close> lies in the support of the family:
  zeros and ones for Bernoulli, indices below the size \<open>D\<close> of the last dimension for
  Categorical, one-hot rows for OneHotCategorical. For the two categorical families
  \<open>logits\<close> has a last dimension, of size at least one.
\<close>

theorem to_b_to_z_support:
  "(dst \<in> BERNOULLI_SYNONYMS \<longrightarrow>
      (\<exists>z b. snd (to_z eps rnd logits dst warn) = Inr z \<and> to_b z dst = Inr b \<and>
             shape b = shape logits \<and> bernoulli_support b)) \<and>
   (dst \<in> CATEGORICAL_SYNONYMS \<longrightarrow> shape logits \<noteq> [] \<longrightarrow> 0 < last (shape logits) \<longrightarrow>
      (\<exists>z b. snd (to_z eps rnd logits dst warn) = Inr z \<and> to_b z dst = Inr b \<and>
             shape b = butlast (shape logits) \<and>
             categorical_support (last (shape logits)) b)) \<and>
   (dst \<in> ONEHOT_SYNONYMS \<longrightarrow> shape logits \<noteq> [] \<longrightarrow> 0 < last (shape logits) \<longrightarrow>
      (\<exists>z b. snd (to_z eps rnd logits dst warn) = Inr z \<and> to_b z dst = Inr b \<and>
             shape b = shape logits \<and> onehot_support b))"
proof (intro conjI impI)
  assume d: "dst \<in> BERNOULLI_SYNONYMS"
  from to_z_bernoulli [OF d, of eps rnd logits warn]
  obtain z where z: "snd (to_z eps rnd logits dst warn) = Inr z" "shape z = shape logits"
    by blast
  have "to_b z dst = Inr (detach (tmap (\<lambda>x. if 0 < x then 1 else 0) z))"
    using d by (simp add: to_b_def)
  moreover have "bernoulli_support (detach (tmap (\<lambda>x. if 0 < x then 1 else 0) z))"
    by (simp add: bernoulli_support_def list_all_iff)
  ultimately show "\<exists>z b. snd (to_z eps rnd logits dst warn) = Inr z \<and> to_b z dst = Inr b \<and>
             shape b = shape logits \<and> bernoulli_support b"
    using z by auto
next
  assume d: "dst \<in> CATEGORICAL_SYNONYMS" and s: "shape logits \<noteq> []"
    and D: "0 < last (shape logits)"
  from d have "dst \<in> CATEGORICAL_SYNONYMS \<union> ONEHOT_SYNONYMS" by simp
  from to_z_categorical [OF this s, of eps rnd warn]
  obtain z where z: "snd (to_z eps rnd logits dst warn) = Inr z" "shape z = shape logits"
    by blast
  from to_b_categorical [OF d, of z] s D z(2)
  show "\<exists>z b. snd (to_z eps rnd logits dst warn) = Inr z \<and> to_b z dst = Inr b \<and>
             shape b = butlast (shape logits) \<and> categorical_support (last (shape logits)) b"
    using z(1) by auto
next
  assume d: "dst \<in> ONEHOT_SYNONYMS" and s: "shape logits \<noteq> []"
    and D: "0 < last (shape logits)"
  from d have "dst \<in> CATEGORICAL_SYNONYMS \<union> ONEHOT_SYNONYMS" by simp
  from to_z_categorical [OF this s, of eps rnd warn]
  obtain z where z: "snd (to_z eps rnd logits dst warn) = Inr z" "shape z = shape logits"
    by blast
  from to_b_onehot [OF d, of z] s D z(2)
  show "\<exists>z b. snd (to_z eps rnd logits dst warn) = Inr z \<and> to_b z dst = Inr b \<and>
             shape b = shape logits \<and> onehot_support b"
    using z(1) by auto
qed

theorem to_b_to_z_support_witness:
  "''bern'' \<in> BERNOULLI_SYNONYMS \<and> ''cat'' \<in> CATEGORICAL_SYNONYMS \<and>
   ''onehot'' \<in> ONEHOT_SYNONYMS \<and> shape ex_logits \<noteq> [] \<and> 0 < last (shape ex_logits) \<and>
   (\<exists>z b. snd (to_z (1 / 8) ex_noise ex_logits ''bern'' True) = Inr z \<and>
          to_b z ''bern'' = Inr b \<and> shape b = [2] \<and> bernoulli_support b) \<and>
   (\<exists>z b. snd (to_z (1 / 8) ex_noise ex_logits ''cat'' True) = Inr z \<and>
          to_b z ''cat'' = Inr b \<and> shape b = [] \<and> categorical_support 2 b) \<and>
   (\<exists>z b. snd (to_z (1 / 8) ex_noise ex_logits ''onehot'' True) = Inr z \<and>
          to_b z ''onehot'' = Inr b \<and> shape b = [2] \<and> onehot_support b)"
  using to_b_to_z_support [of "''bern''" "1 / 8" ex_noise ex_logits True]
    to_b_to_z_support [of "''cat''" "1 / 8" ex_noise ex_logits True]
    to_b_to_z_support [of "''onehot''" "1 / 8" ex_noise ex_logits True]
  by (simp add: ex_simps)





text \<open>
  C1, in single precision, for the arg-max. With two categories of equal logits, the
  observed index 1 and the noise \<open>1 - 1 / 2 ^ 23\<close> and \<open>1 / 2 ^ 16\<close>, the term that
  separates the two coordinates of \<open>z_tilde\<close> is at most \<open>3 / 2 ^ 23\<close> and is absorbed
  when it is added to \<open>- log (1 / 2 ^ 16)\<close>, a number between 8 and 12. The two
  coordinates are equal, the arg-max is the first one, and \<open>to_b\<close> returns the index 0
  where \<open>b\<close> is 1.
\<close>

theorem to_z_tilde32_categorical_tie:
  "0 < eps32 \<and> eps32 < 1 \<and> ''cat'' \<in> CATEGORICAL_SYNONYMS \<and>
   shape ex_index = butlast (shape ex_logits) \<and>
   categorical_support (last (shape ex_logits)) ex_index \<and> elem ex_index [] = 1 \<and>
   elem (clamp_probs eps32 (rand_like ex_noise32 ex_logits)) [0] = ex_noise32 [0] \<and>
   elem (clamp_probs eps32 (rand_like ex_noise32 ex_logits)) [1] = ex_noise32 [1] \<and>
   result_elem (rediscretize32 eps32 ex_noise32 ex_logits ex_index ''cat'') [] = Inr 0"
proof -
  let ?v = "elem (clamp_probs eps32 (rand_like ex_noise32 ex_logits))"
  have v0: "?v [0] = 1 - 1 / 2 ^ 23" and v1: "?v [Suc 0] = 1 / 2 ^ 16"
    by (simp_all add: elem_clamp_probs ex_noise32_def eps32_def)
  have r: "row ex_logits [] = [0, 0]" by (simp add: row_def ex_logits_def upt_0_2)
  have vp: "valid (shape ex_index) []" by (simp add: valid_def ex_simps)
  have "\<exists>zt. to_z_tilde32 eps32 ex_noise32 ex_logits ex_index ''cat'' = Inr zt \<and>
           shape zt = shape ex_logits \<and>
     (\<forall>p d. valid (shape ex_index) p \<longrightarrow> d < last (shape ex_logits) \<longrightarrow>
        elem zt (p @ [d]) =
          (let v = elem (clamp_probs eps32 (rand_like ex_noise32 ex_logits));
               k = nat \<lfloor>elem ex_index p\<rfloor>
           in if d = k then - rnd32 (ln (- rnd32 (ln (v (p @ [d])))))
              else - rnd32 (ln (rnd32 (rnd32 (- rnd32 (ln (v (p @ [d])))
                           / softmax32_row (row ex_logits p) (elem ex_logits (p @ [d])))
                         - rnd32 (ln (v (p @ [k]))))))))"
    by (rule to_z_tilde32_categorical_eq) (simp_all add: ex_simps)
  then obtain zt where run: "to_z_tilde32 eps32 ex_noise32 ex_logits ex_index ''cat'' = Inr zt"
    and szt0: "shape zt = shape ex_logits"
    and el0: "\<forall>p d. valid (shape ex_index) p \<longrightarrow> d < last (shape ex_logits) \<longrightarrow>
        elem zt (p @ [d]) =
          (let v = elem (clamp_probs eps32 (rand_like ex_noise32 ex_logits));
               k = nat \<lfloor>elem ex_index p\<rfloor>
           in if d = k then - rnd32 (ln (- rnd32 (ln (v (p @ [d])))))
              else - rnd32 (ln (rnd32 (rnd32 (- rnd32 (ln (v (p @ [d])))
                           / softmax32_row (row ex_logits p) (elem ex_logits (p @ [d])))
                         - rnd32 (ln (v (p @ [k])))))))"
    by blast
  have szt: "shape zt = [2]" using szt0 by (simp add: ex_simps)
  have k: "nat \<lfloor>elem ex_index []\<rfloor> = Suc 0" by (simp add: ex_index_def)
  have el: "elem zt [d] =
          (if d = Suc 0 then - rnd32 (ln (- rnd32 (ln (?v [d]))))
           else - rnd32 (ln (rnd32 (rnd32 (- rnd32 (ln (?v [d]))
                           / softmax32_row (row ex_logits []) (elem ex_logits [d]))
                         - rnd32 (ln (?v [Suc 0]))))))"
    if "d < 2" for d
    using el0 [rule_format, OF vp, of d] that by (simp add: ex_simps Let_def k)
  have e1: "elem zt [Suc 0] = - rnd32 (ln (- rnd32 (ln (1 / 2 ^ 16))))"
    using el [of "Suc 0"] by (simp add: v1)
  have "elem zt [0] = - rnd32 (ln (rnd32 (rnd32 (- rnd32 (ln (1 - 1 / 2 ^ 23)) / (1 / 2))
                         - rnd32 (ln (1 / 2 ^ 16)))))"
  proof -
    have l0: "elem ex_logits [0] = 0" by (simp add: ex_logits_def)
    show ?thesis using el [of 0] by (simp add: v0 v1 r l0 softmax32_row_zeros)
  qed
  moreover have "rnd32 (rnd32 (- rnd32 (ln (1 - 1 / 2 ^ 23)) / (1 / 2)) - rnd32 (ln (1 / 2 ^ 16)))
                 = - rnd32 (ln (1 / 2 ^ 16))"
    by (intro rnd32_absorbs rnd32_small_quotient rnd32_log_near_one)
  ultimately have e0: "elem zt [0] = elem zt [Suc 0]" using e1 by (simp only:)
  have rz: "row zt [] = [elem zt [0], elem zt [Suc 0]]" by (simp add: row_def szt upt_0_2)
  have "argmax_list (row zt []) = 0" unfolding rz e0 by simp
  then have "result_elem (rediscretize32 eps32 ex_noise32 ex_logits ex_index ''cat'') [] = Inr 0"
    using run szt tags_disjoint(1) [of "''cat''"]
    by (simp add: result_elem_def rediscretize32_def ebind_def to_b_def argmax_last_def ex_simps)
  moreover have "?v [0] = ex_noise32 [0]" "?v [1] = ex_noise32 [1]"
    using v0 v1 by (simp_all add: ex_noise32_def)
  moreover have "elem ex_index [] = 1" by (simp add: ex_index_def)
  moreover have "0 < eps32" "eps32 < 1" by (simp_all add: eps32_def)
  ultimately show ?thesis by (simp add: ex_simps)
qed

text \<open>
  C3. \<open>reinforce\<close> treats \<open>fb\<close> and \<open>b\<close> as constants and returns \<open>fb\<close> times the
  gradient of the closed-form log-probability of \<open>b\<close> with respect to \<open>logits\<close> (seed of
  ones), with \<open>fb\<close> unsqueezed on the last axis for the two categorical tags; the result
  has the shape of \<open>logits\<close>. The gradient is stated as the derivative of the
  log-probability of one sample in one logit. \<open>logits\<close> must be tracked, or the
  differentiation fails.
\<close>

theorem reinforce_is_score_function:
  "reinforce fb b logits dst = reinforce (detach fb) (detach b) logits dst \<and>
   (dst \<in> BERNOULLI_SYNONYMS \<longrightarrow> requires_grad logits \<longrightarrow> shape b = shape logits \<longrightarrow>
    bernoulli_support b \<longrightarrow> shape fb = shape b \<longrightarrow>
      (\<exists>lp g. Bernoulli_log_prob logits (detach b) = Inr lp \<and>
         reinforce fb b logits dst = Inr g \<and> shape g = shape logits \<and>
         (\<forall>i. valid (shape logits) i \<longrightarrow>
            elem (out lp) i = bernoulli_logp (elem logits i) (elem b i) \<and>
            (\<exists>dl. ((\<lambda>x. bernoulli_logp x (elem b i)) has_real_derivative dl)
                    (at (elem logits i)) \<and>
                  elem g i = elem fb i * dl)))) \<and>
   (dst \<in> CATEGORICAL_SYNONYMS \<longrightarrow> requires_grad logits \<longrightarrow> shape logits \<noteq> [] \<longrightarrow>
    shape b = butlast (shape logits) \<longrightarrow> categorical_support (last (shape logits)) b \<longrightarrow>
    shape fb = shape b \<longrightarrow>
      (\<exists>lp g. Categorical_log_prob logits (detach b) = Inr lp \<and>
         reinforce fb b logits dst = Inr g \<and> shape g = shape logits \<and>
         (\<forall>p d. valid (shape b) p \<longrightarrow> d < last (shape logits) \<longrightarrow>
            elem (out lp) p = categorical_logp (row logits p) (nat \<lfloor>elem b p\<rfloor>) \<and>
            (\<exists>dl. ((\<lambda>x. categorical_logp ((row logits p)[d := x]) (nat \<lfloor>elem b p\<rfloor>))
                     has_real_derivative dl) (at (elem logits (p @ [d]))) \<and>
                  elem g (p @ [d]) = elem fb p * dl)))) \<and>
   (dst \<in> ONEHOT_SYNONYMS \<longrightarrow> requires_grad logits \<longrightarrow> 0 < last (shape logits) \<longrightarrow>
    shape b = shape logits \<longrightarrow> onehot_support b \<longrightarrow> shape fb = butlast (shape b) \<longrightarrow>
      (\<exists>lp g. OneHotCategorical_log_prob logits (detach b) = Inr lp \<and>
         reinforce fb b logits dst = Inr g \<and> shape g = shape logits \<and>
         (\<forall>p d. valid (shape fb) p \<longrightarrow> d < last (shape logits) \<longrightarrow>
            elem (out lp) p = categorical_logp (row logits p) (argmax_list (row b p)) \<and>
            (\<exists>dl. ((\<lambda>x. categorical_logp ((row logits p)[d := x]) (argmax_list (row b p)))
                     has_real_derivative dl) (at (elem logits (p @ [d]))) \<and>
                  elem g (p @ [d]) = elem fb p * dl))))"
proof (intro conjI impI)
  show "reinforce fb b logits dst = reinforce (detach fb) (detach b) logits dst"
    by (simp add: reinforce_def detach_def)
next
  assume a: "dst \<in> BERNOULLI_SYNONYMS" "requires_grad logits" "shape b = shape logits"
    "bernoulli_support b" "shape fb = shape b"
  from reinforce_bernoulli [OF a] bernoulli_logp_deriv
  show "\<exists>lp g. Bernoulli_log_prob logits (detach b) = Inr lp \<and>
         reinforce fb b logits dst = Inr g \<and> shape g = shape logits \<and>
         (\<forall>i. valid (shape logits) i \<longrightarrow>
            elem (out lp) i = bernoulli_logp (elem logits i) (elem b i) \<and>
            (\<exists>dl. ((\<lambda>x. bernoulli_logp x (elem b i)) has_real_derivative dl)
                    (at (elem logits i)) \<and>
                  elem g i = elem fb i * dl))"
    by blast
next
  assume a: "dst \<in> CATEGORICAL_SYNONYMS" "requires_grad logits" "shape logits \<noteq> []"
    "shape b = butlast (shape logits)" "categorical_support (last (shape logits)) b"
    "shape fb = shape b"
  from reinforce_categorical [OF a] obtain lp g where
    lp: "Categorical_log_prob logits (detach b) = Inr lp"
    and run: "reinforce fb b logits dst = Inr g" and sg: "shape g = shape logits"
    and lpe: "\<And>p. elem (out lp) p = categorical_logp (row logits p) (nat \<lfloor>elem b p\<rfloor>)"
    and ge: "\<And>p d. valid (shape b) p \<Longrightarrow> d < last (shape logits) \<Longrightarrow>
              elem g (p @ [d]) = elem fb p *
                ((if real d = elem b p then 1 else 0)
                 - exp (elem logits (p @ [d])) / sum_list (map exp (row logits p)))"
    by blast
  have "\<exists>dl. ((\<lambda>x. categorical_logp ((row logits p)[d := x]) (nat \<lfloor>elem b p\<rfloor>))
                     has_real_derivative dl) (at (elem logits (p @ [d]))) \<and>
                  elem g (p @ [d]) = elem fb p * dl"
    if vp: "valid (shape b) p" and d: "d < last (shape logits)" for p d
  proof -
    from a(5) vp obtain k where k: "elem b p = real k"
      by (auto simp: categorical_support_def list_all_iff list_ex_iff set_indices)
    have "d < length (row logits p)" using d by simp
    from categorical_logp_deriv [OF this, of k]
    have "((\<lambda>x. categorical_logp ((row logits p)[d := x]) k) has_real_derivative
            ((if k = d then 1 else 0)
             - exp (elem logits (p @ [d])) / sum_list (map exp (row logits p))))
          (at (elem logits (p @ [d])))"
      using d by (simp add: nth_row)
    moreover have "elem g (p @ [d]) = elem fb p *
            ((if k = d then 1 else 0)
             - exp (elem logits (p @ [d])) / sum_list (map exp (row logits p)))"
      using ge [OF vp d] k by auto
    ultimately show ?thesis using k by auto
  qed
  then show "\<exists>lp g. Categorical_log_prob logits (detach b) = Inr lp \<and>
         reinforce fb b logits dst = Inr g \<and> shape g = shape logits \<and>
         (\<forall>p d. valid (shape b) p \<longrightarrow> d < last (shape logits) \<longrightarrow>
            elem (out lp) p = categorical_logp (row logits p) (nat \<lfloor>elem b p\<rfloor>) \<and>
            (\<exists>dl. ((\<lambda>x. categorical_logp ((row logits p)[d := x]) (nat \<lfloor>elem b p\<rfloor>))
                     has_real_derivative dl) (at (elem logits (p @ [d]))) \<and>
                  elem g (p @ [d]) = elem fb p * dl))"
    using lp run sg lpe by blast
next
  assume a: "dst \<in> ONEHOT_SYNONYMS" "requires_grad logits" "0 < last (shape logits)"
    "shape b = shape logits" "onehot_support b" "shape fb = butlast (shape b)"
  from reinforce_onehot [OF a] obtain lp g where
    lp: "OneHotCategorical_log_prob logits (detach b) = Inr lp"
    and run: "reinforce fb b logits dst = Inr g" and sg: "shape g = shape logits"
    and lpe: "\<And>p. valid (shape fb) p \<Longrightarrow>
              elem (out lp) p = categorical_logp (row logits p) (argmax_list (row b p))"
    and ge: "\<And>p d. valid (shape fb) p \<Longrightarrow> d < last (shape logits) \<Longrightarrow>
              elem g (p @ [d]) = elem fb p *
                ((if d = argmax_list (row b p) then 1 else 0)
                 - exp (elem logits (p @ [d])) / sum_list (map exp (row logits p)))"
    by blast
  have "\<exists>dl. ((\<lambda>x. categorical_logp ((row logits p)[d := x]) (argmax_list (row b p)))
                     has_real_derivative dl) (at (elem logits (p @ [d]))) \<and>
                  elem g (p @ [d]) = elem fb p * dl"
    if vp: "valid (shape fb) p" and d: "d < last (shape logits)" for p d
  proof -
    have "d < length (row logits p)" using d by simp
    from categorical_logp_deriv [OF this, of "argmax_list (row b p)"]
    have "((\<lambda>x. categorical_logp ((row logits p)[d := x]) (argmax_list (row b p)))
            has_real_derivative
            ((if argmax_list (row b p) = d then 1 else 0)
             - exp (elem logits (p @ [d])) / sum_list (map exp (row logits p))))
          (at (elem logits (p @ [d])))"
      using d by (simp add: nth_row)
    moreover have "elem g (p @ [d]) = elem fb p *
            ((if argmax_list (row b p) = d then 1 else 0)
             - exp (elem logits (p @ [d])) / sum_list (map exp (row logits p)))"
      using ge [OF vp d] by auto
    ultimately show ?thesis by auto
  qed
  then show "\<exists>lp g. OneHotCategorical_log_prob logits (detach b) = Inr lp \<and>
         reinforce fb b logits dst = Inr g \<and> shape g = shape logits \<and>
         (\<forall>p d. valid (shape fb) p \<longrightarrow> d < last (shape logits) \<longrightarrow>
            elem (out lp) p = categorical_logp (row logits p) (argmax_list (row b p)) \<and>
            (\<exists>dl. ((\<lambda>x. categorical_logp ((row logits p)[d := x]) (argmax_list (row b p)))
                     has_real_derivative dl) (at (elem logits (p @ [d]))) \<and>
                  elem g (p @ [d]) = elem fb p * dl))"
    using lp run sg lpe by blast
qed


theorem reinforce_is_score_function_witness:
  "''bern'' \<in> BERNOULLI_SYNONYMS \<and> ''cat'' \<in> CATEGORICAL_SYNONYMS \<and>
   ''onehot'' \<in> ONEHOT_SYNONYMS \<and> requires_grad ex_logits \<and> shape ex_logits \<noteq> [] \<and>
   0 < last (shape ex_logits) \<and>
   shape ex_b = shape ex_logits \<and> bernoulli_support ex_b \<and> shape ex_fb = shape ex_b \<and>
   shape ex_index = butlast (shape ex_logits) \<and>
   categorical_support (last (shape ex_logits)) ex_index \<and> shape ex_fb0 = shape ex_index \<and>
   onehot_support ex_b \<and> shape ex_fb0 = butlast (shape ex_b) \<and>
   valid (shape ex_logits) [0] \<and>
   (\<exists>g. reinforce ex_fb ex_b ex_logits ''bern'' = Inr g \<and> shape g = [2] \<and>
        elem g [0] = 3 / 2) \<and>
   (\<exists>g. reinforce ex_fb0 ex_index ex_logits ''cat'' = Inr g \<and> shape g = [2]) \<and>
   (\<exists>g. reinforce ex_fb0 ex_b ex_logits ''onehot'' = Inr g \<and> shape g = [2])"
proof -
  have v: "valid (shape ex_logits) [0]" by (simp add: valid_def ex_simps)
  from reinforce_is_score_function [of ex_fb ex_b ex_logits "''bern''", THEN conjunct2]
  obtain g where g: "reinforce ex_fb ex_b ex_logits ''bern'' = Inr g" "shape g = [2]"
    "\<exists>dl. ((\<lambda>x. bernoulli_logp x (elem ex_b [0])) has_real_derivative dl)
            (at (elem ex_logits [0])) \<and> elem g [0] = elem ex_fb [0] * dl"
    using v by (auto simp: ex_simps)
  from g(3) obtain dl where dl: "((\<lambda>x. bernoulli_logp x (elem ex_b [0])) has_real_derivative dl)
            (at (elem ex_logits [0]))" "elem g [0] = elem ex_fb [0] * dl" by blast
  have "dl = elem ex_b [0] - sigmoid (elem ex_logits [0])"
    using dl(1) bernoulli_logp_deriv by (rule DERIV_unique)
  then have "elem g [0] = 3 / 2"
    using dl(2) by (simp add: ex_b_def ex_logits_def ex_fb_def sigmoid_def)
  then have "\<exists>g. reinforce ex_fb ex_b ex_logits ''bern'' = Inr g \<and> shape g = [2] \<and>
        elem g [0] = 3 / 2" using g by blast
  moreover from reinforce_is_score_function [of ex_fb0 ex_index ex_logits "''cat''", THEN conjunct2]
  have "\<exists>g. reinforce ex_fb0 ex_index ex_logits ''cat'' = Inr g \<and> shape g = [2]"
    by (auto simp: ex_simps)
  moreover from reinforce_is_score_function [of ex_fb0 ex_b ex_logits "''onehot''", THEN conjunct2]
  have "\<exists>g. reinforce ex_fb0 ex_b ex_logits ''onehot'' = Inr g \<and> shape g = [2]"
    by (auto simp: ex_simps)
  ultimately show ?thesis using v by (simp add: ex_simps)
qed

text \<open>
  C9. The tensor that \<open>reinforce\<close> returns does not require gradient tracking: it is the
  product of the detached \<open>fb\<close> and a gradient taken without \<^verbatim>\<open>create_graph\<close>.
\<close>

theorem reinforce_result_untracked:
  assumes "reinforce fb b logits dst = Inr g"
  shows "\<not> requires_grad g \<and>
         (\<exists>fb' log_pb dlog_pb.
            (fb' = detach fb \<or> fb' = unsqueeze_last (detach fb)) \<and> \<not> requires_grad fb' \<and>
            autograd_grad log_pb logits (ones_like (out log_pb)) False = Inr dlog_pb \<and>
            \<not> requires_grad dlog_pb \<and> tmul fb' dlog_pb = Inr g)"
proof -
  from assms obtain lp fb' dl where fb': "fb' = detach fb \<or> fb' = unsqueeze_last (detach fb)"
    and dl: "autograd_grad lp logits (ones_like (out lp)) False = Inr dl"
    and g: "tmul fb' dl = Inr g"
    by (auto simp: reinforce_def Let_def ebind_Inr split: if_splits)
  have nf: "\<not> requires_grad fb'" using fb' by (auto simp: unsqueeze_last_def)
  have nd: "\<not> requires_grad dl" using dl by (rule autograd_grad_untracked)
  have "\<not> requires_grad g"
    using nf nd tbin_requires_grad [of "(*)" fb' dl g] g by (simp add: tmul_def)
  then show ?thesis using fb' nf dl nd g by blast
qed

theorem reinforce_result_untracked_witness:
  "requires_grad ex_fb \<and> requires_grad ex_logits \<and>
   (\<exists>g. reinforce ex_fb ex_b ex_logits ''bern'' = Inr g \<and> \<not> requires_grad g)"
proof -
  from reinforce_bernoulli [of "''bern''" ex_logits ex_b ex_fb]
  obtain g where g: "reinforce ex_fb ex_b ex_logits ''bern'' = Inr g"
    by (auto simp: ex_simps)
  from reinforce_result_untracked [OF g] g show ?thesis
    by (auto simp: ex_simps ex_fb_def)
qed

text \<open>
  C5. A tag outside the three families and their synonyms makes \<open>to_z\<close>, \<open>to_b\<close>,
  \<open>reinforce\<close> and \<open>relax\<close> raise a \<open>ValueError\<close> that names the tag, whatever the
  other arguments are.
\<close>

theorem unknown_tag_raises:
  assumes "dst \<notin> BERNOULLI_SYNONYMS \<union> CATEGORICAL_SYNONYMS \<union> ONEHOT_SYNONYMS"
  shows "snd (to_z eps rnd logits dst warn) = Inl (ValueError (''Unknown distribution '' @ dst)) \<and>
         to_b z dst = Inl (ValueError (''Unknown distribution '' @ dst)) \<and>
         reinforce fb b logits dst = Inl (ValueError (''Unknown distribution '' @ dst)) \<and>
         fst (relax eps rnd fb b logits z c dst components s0)
           = Inl (ValueError (''Unknown distribution '' @ dst))"
  using assms
  by (simp add: to_z_def to_b_def reinforce_def relax_def to_z_tilde_def Let_def
      unknown_distribution_def)

theorem unknown_tag_raises_witness:
  "''poisson'' \<notin> BERNOULLI_SYNONYMS \<union> CATEGORICAL_SYNONYMS \<union> ONEHOT_SYNONYMS \<and>
   snd (to_z (1 / 8) ex_noise ex_logits ''poisson'' True)
     = Inl (ValueError ''Unknown distribution poisson'') \<and>
   to_b ex_logits ''poisson'' = Inl (ValueError ''Unknown distribution poisson'') \<and>
   reinforce ex_fb ex_b ex_logits ''poisson''
     = Inl (ValueError ''Unknown distribution poisson'') \<and>
   fst (relax (1 / 8) ex_noise ex_fb ex_b ex_logits ex_logits
          (\<lambda>x s. (Inl RuntimeError, Suc s)) ''poisson'' False (0 :: nat))
     = Inl (ValueError ''Unknown distribution poisson'')"
proof -
  have t: "''poisson'' \<notin> BERNOULLI_SYNONYMS \<union> CATEGORICAL_SYNONYMS \<union> ONEHOT_SYNONYMS"
    by (simp add: BERNOULLI_SYNONYMS_def CATEGORICAL_SYNONYMS_def ONEHOT_SYNONYMS_def)
  from unknown_tag_raises [OF t, where eps = "1 / 8" and rnd = ex_noise and logits = ex_logits
      and warn = True and z = ex_logits and fb = ex_fb and b = ex_b
      and c = "\<lambda>x s. (Inl RuntimeError, Suc s)" and components = False and ?s0.0 = "0 :: nat"] t
  show ?thesis by simp
qed

text \<open>
  C10. With an unrecognized tag \<open>relax\<close> raises in the conditional reparameterization,
  before the control variate \<open>c\<close> is called: the state of \<open>c\<close> is the initial one and the
  outcome does not depend on \<open>c\<close>.
\<close>

theorem relax_unknown_tag_before_control_variate:
  assumes "dst \<notin> BERNOULLI_SYNONYMS \<union> CATEGORICAL_SYNONYMS \<union> ONEHOT_SYNONYMS"
  shows "to_z_tilde eps rnd logits (detach b) dst = Inl (unknown_distribution dst) \<and>
         relax eps rnd fb b logits z c dst components s0 = (Inl (unknown_distribution dst), s0) \<and>
         relax eps rnd fb b logits z c dst components s0
           = relax eps rnd fb b logits z c' dst components s0"
  using assms by (simp add: relax_def to_z_tilde_def Let_def)

theorem relax_unknown_tag_before_control_variate_witness:
  "''poisson'' \<notin> BERNOULLI_SYNONYMS \<union> CATEGORICAL_SYNONYMS \<union> ONEHOT_SYNONYMS \<and>
   relax (1 / 8) ex_noise ex_fb ex_b ex_logits ex_logits
      (\<lambda>x s. (Inl RuntimeError, Suc s)) ''poisson'' True (0 :: nat)
     = (Inl (ValueError ''Unknown distribution poisson''), 0)"
proof -
  have t: "''poisson'' \<notin> BERNOULLI_SYNONYMS \<union> CATEGORICAL_SYNONYMS \<union> ONEHOT_SYNONYMS"
    by (simp add: BERNOULLI_SYNONYMS_def CATEGORICAL_SYNONYMS_def ONEHOT_SYNONYMS_def)
  from relax_unknown_tag_before_control_variate [OF t, where eps = "1 / 8" and rnd = ex_noise
      and logits = ex_logits and b = ex_b and fb = ex_fb and z = ex_logits
      and c = "\<lambda>x s. (Inl RuntimeError, Suc s)" and components = True and ?s0.0 = "0 :: nat"] t
  show ?thesis by (simp add: unknown_distribution_def)
qed


text \<open>
  C2. With the same inputs and the same noise, the four terms that \<open>relax\<close> returns with
  \<open>components\<close> set reconstruct, as \<open>diff * dlog_pb + dc_z - dc_z_tilde\<close>, exactly
  the result of \<open>relax\<close> without it, and the state of \<open>c\<close> is the same. When the
  gradients of \<open>c\<close> have the shape of \<open>logits\<close> and \<open>diff\<close> has one value per sample,
  the estimate has the shape of \<open>logits\<close>.
\<close>

theorem relax_components_reconstruct:
  "fst (relax eps rnd fb b logits z c dst False s0)
     = ebind (fst (relax eps rnd fb b logits z c dst True s0)) reconstruct \<and>
   snd (relax eps rnd fb b logits z c dst False s0)
     = snd (relax eps rnd fb b logits z c dst True s0) \<and>
   (relax eps rnd fb b logits z c dst True s0
      = (Inr (Components diff dlog_pb dc_z dc_z_tilde), s1) \<longrightarrow>
    shape dc_z = shape logits \<longrightarrow> shape dc_z_tilde = shape logits \<longrightarrow>
    shape diff = (if dst \<in> BERNOULLI_SYNONYMS then shape logits
                  else butlast (shape logits) @ [1]) \<longrightarrow>
      (\<exists>g. relax eps rnd fb b logits z c dst False s0 = (Inr (Estimate g), s1) \<and>
           reconstruct (Components diff dlog_pb dc_z dc_z_tilde) = Inr (Estimate g) \<and>
           shape g = shape logits))"
proof (intro conjI impI)
  show e1: "fst (relax eps rnd fb b logits z c dst False s0)
     = ebind (fst (relax eps rnd fb b logits z c dst True s0)) reconstruct"
    by (rule relax_components_eq)
  show e2: "snd (relax eps rnd fb b logits z c dst False s0)
     = snd (relax eps rnd fb b logits z c dst True s0)"
    by (rule relax_components_eq)
  assume run: "relax eps rnd fb b logits z c dst True s0
      = (Inr (Components diff dlog_pb dc_z dc_z_tilde), s1)"
    and sz: "shape dc_z = shape logits" and szt: "shape dc_z_tilde = shape logits"
    and sd: "shape diff = (if dst \<in> BERNOULLI_SYNONYMS then shape logits
                  else butlast (shape logits) @ [1])"
  from relax_components_run [OF run] obtain lp seed where
    dl: "autograd_grad lp logits seed False = Inr dlog_pb"
    and lp: "dst \<in> BERNOULLI_SYNONYMS \<and> Bernoulli_log_prob logits (detach b) = Inr lp \<or>
            dst \<notin> BERNOULLI_SYNONYMS \<and> shape logits \<noteq> [] \<and>
            (Categorical_log_prob logits (detach b) = Inr lp \<or>
             OneHotCategorical_log_prob logits (detach b) = Inr lp)"
    by blast
  have sl: "shape dlog_pb = shape logits"
    using lp dl by (intro log_prob_backward_shape [of logits "detach b" lp seed False]) auto
  have "shape diff = shape logits \<or>
        shape logits \<noteq> [] \<and> shape diff = butlast (shape logits) @ [1]"
    using sd lp by auto
  from reconstruct_shape [OF sl sz szt this] obtain g where
    g: "reconstruct (Components diff dlog_pb dc_z dc_z_tilde) = Inr (Estimate g)"
      "shape g = shape logits" by blast
  have "fst (relax eps rnd fb b logits z c dst False s0) = Inr (Estimate g)"
    using e1 run g(1) by (simp add: ebind_def)
  moreover have "snd (relax eps rnd fb b logits z c dst False s0) = s1"
    using e2 run by simp
  ultimately have "relax eps rnd fb b logits z c dst False s0 = (Inr (Estimate g), s1)"
    by (simp add: prod_eq_iff)
  then show "\<exists>g. relax eps rnd fb b logits z c dst False s0 = (Inr (Estimate g), s1) \<and>
           reconstruct (Components diff dlog_pb dc_z dc_z_tilde) = Inr (Estimate g) \<and>
           shape g = shape logits"
    using g by blast
qed

theorem relax_components_reconstruct_witness:
  "\<exists>diff dlog_pb dc_z dc_z_tilde g.
     relax (1 / 8) ex_noise ex_fb ex_b ex_logits ex_logits ex_c ''bern'' True 0
       = (Inr (Components diff dlog_pb dc_z dc_z_tilde), 2) \<and>
     shape dc_z = shape ex_logits \<and> shape dc_z_tilde = shape ex_logits \<and>
     shape diff = (if ''bern'' \<in> BERNOULLI_SYNONYMS then shape ex_logits
                   else butlast (shape ex_logits) @ [1]) \<and>
     relax (1 / 8) ex_noise ex_fb ex_b ex_logits ex_logits ex_c ''bern'' False 0
       = (Inr (Estimate g), 2) \<and>
     reconstruct (Components diff dlog_pb dc_z dc_z_tilde) = Inr (Estimate g) \<and>
     shape g = [2]"
proof -
  from to_z_tilde_bernoulli_eq [of "''bern''" "detach ex_b" ex_logits "1 / 8" ex_noise]
  obtain zt where zt: "to_z_tilde (1 / 8) ex_noise ex_logits (detach ex_b) ''bern'' = Inr zt"
    "shape zt = [2]" by (auto simp: ex_simps)
  obtain diff dlog_pb dc_z dc_z_tilde where
    run: "relax (1 / 8) ex_noise ex_fb ex_b ex_logits ex_logits ex_c ''bern'' True 0
       = (Inr (Components diff dlog_pb dc_z dc_z_tilde), 2)"
    and sh: "shape dc_z = [2]" "shape dc_z_tilde = [2]" "shape diff = [2]"
    using zt
    by (simp add: relax_def Let_def ex_c_def ebind_def tsub_def tbin_same_shape ex_simps
        set_requires_grad_def Bernoulli_log_prob_def autograd_grad_def ones_like_def
        numeral_2_eq_2)
  from relax_components_reconstruct [of "1 / 8" ex_noise ex_fb ex_b ex_logits ex_logits ex_c
      "''bern''" 0 diff dlog_pb dc_z dc_z_tilde 2, THEN conjunct2, THEN conjunct2] run sh
  show ?thesis by (auto simp: ex_simps)
qed

text \<open>
  C7. The control variate built for a Bernoulli tag applies \<open>eta * f (sigmoid (x / exp
  log_temp))\<close>, the one built for a Categorical or OneHotCategorical tag applies \<open>eta * f
  (softmax (x / exp log_temp))\<close> along the last dimension, whatever values the two
  parameters have; the temperature \<open>exp log_temp\<close> is positive.
\<close>

theorem rebar_forward:
  assumes "snd (REBAR_init f dst temp0 eta0 warn) = Inr cv"
    and "self = cv\<lparr>log_temp := lt, eta := et\<rparr>"
  shows "(\<forall>i. 0 < elem (texp (log_temp self)) i) \<and>
         (dst \<in> BERNOULLI_SYNONYMS \<longrightarrow>
            forward self x = ebind (tdiv x (texp lt)) (\<lambda>xt.
                             ebind (f (tsigmoid xt)) (\<lambda>y. tmul et y))) \<and>
         (dst \<in> CATEGORICAL_SYNONYMS \<union> ONEHOT_SYNONYMS \<longrightarrow>
            forward self x = ebind (tdiv x (texp lt)) (\<lambda>xt.
                             ebind (softmax_last xt) (\<lambda>sm.
                             ebind (f sm) (\<lambda>y. tmul et y)))) \<and>
         (shape lt = [1] \<longrightarrow> shape x \<noteq> [] \<longrightarrow>
            (\<exists>xt sm. tdiv x (texp lt) = Inr xt \<and> shape xt = shape x \<and>
               (\<forall>i. valid (shape x) i \<longrightarrow> elem xt i = elem x i / exp (elem lt [0])) \<and>
               softmax_last xt = Inr sm \<and> shape sm = shape x \<and>
               (\<forall>i. valid (shape x) i \<longrightarrow>
                  elem (tsigmoid xt) i = 1 / (1 + exp (- elem xt i)) \<and>
                  elem sm i = exp (elem xt i) / sum_list (map exp (row xt (butlast i))))))"
proof (intro conjI impI)
  show "\<forall>i. 0 < elem (texp (log_temp self)) i" by (simp add: texp_def)
  have lt: "log_temp self = lt" "eta self = et" using assms(2) by simp_all
  have f: "cv_f self = f" and bern: "cv_bernoulli self = (dst \<in> BERNOULLI_SYNONYMS)"
    using assms tags_disjoint [of dst]
    by (auto simp: REBAR_init_def Let_def reset_parameters_def split: if_splits)
  show "forward self x = ebind (tdiv x (texp lt)) (\<lambda>xt.
                         ebind (f (tsigmoid xt)) (\<lambda>y. tmul et y))"
    if "dst \<in> BERNOULLI_SYNONYMS"
    using that by (simp add: forward_def lt f bern)
  show "forward self x = ebind (tdiv x (texp lt)) (\<lambda>xt.
                         ebind (softmax_last xt) (\<lambda>sm.
                         ebind (f sm) (\<lambda>y. tmul et y)))"
    if "dst \<in> CATEGORICAL_SYNONYMS \<union> ONEHOT_SYNONYMS"
  proof -
    from that have "dst \<notin> BERNOULLI_SYNONYMS" using tags_disjoint by blast
    then show ?thesis by (simp add: forward_def lt f bern)
  qed
  assume s: "shape lt = [1]" "shape x \<noteq> []"
  from tdiv_temperature [OF s] obtain xt where
    xt: "tdiv x (texp lt) = Inr xt" "shape xt = shape x"
      "\<forall>i. valid (shape x) i \<longrightarrow> elem xt i = elem x i / exp (elem lt [0])" by blast
  then show "\<exists>xt sm. tdiv x (texp lt) = Inr xt \<and> shape xt = shape x \<and>
               (\<forall>i. valid (shape x) i \<longrightarrow> elem xt i = elem x i / exp (elem lt [0])) \<and>
               softmax_last xt = Inr sm \<and> shape sm = shape x \<and>
               (\<forall>i. valid (shape x) i \<longrightarrow>
                  elem (tsigmoid xt) i = 1 / (1 + exp (- elem xt i)) \<and>
                  elem sm i = exp (elem xt i) / sum_list (map exp (row xt (butlast i))))"
    using s(2) by (simp add: softmax_last_def tsigmoid_def sigmoid_def)
qed

theorem rebar_forward_witness:
  "shape ex_log_temp = [1] \<and> shape ex_logits \<noteq> [] \<and> ''bern'' \<in> BERNOULLI_SYNONYMS \<and>
   ''onehot'' \<in> CATEGORICAL_SYNONYMS \<union> ONEHOT_SYNONYMS \<and>
   (\<exists>cv r. snd (REBAR_init ex_f ''bern'' (1 / 10) 1 True) = Inr cv \<and>
       forward (cv\<lparr>log_temp := ex_log_temp, eta := ex_eta\<rparr>) ex_logits = Inr r \<and>
       elem r [0] = 1) \<and>
   (\<exists>cv r. snd (REBAR_init ex_f ''onehot'' (1 / 10) 1 True) = Inr cv \<and>
       forward (cv\<lparr>log_temp := ex_log_temp, eta := ex_eta\<rparr>) ex_logits = Inr r \<and>
       elem r [0] = 1)"
proof -
  have s: "shape ex_log_temp = [1]" "shape ex_logits \<noteq> []"
    by (simp_all add: ex_log_temp_def ex_simps)
  have v: "valid (shape ex_logits) [0]" "valid (shape ex_logits) [Suc 0]"
    by (simp_all add: valid_def ex_simps)
  have bs: "broadcast_shapes [Suc 0] [2] = Some [2]" by (simp add: broadcast_shapes_def)
  have bi: "bidx [Suc 0] [0] = [0]" "bidx [2] [0] = [0]" by (simp_all add: bidx_def)
  obtain cv1 where cv1: "snd (REBAR_init ex_f ''bern'' (1 / 10) 1 True) = Inr cv1"
    by (simp add: REBAR_init_def Let_def ex_simps)
  note w1 = rebar_forward [OF cv1 refl, where lt = ex_log_temp and et = ex_eta
      and x = ex_logits]
  from w1 s obtain xt where xt: "tdiv ex_logits (texp ex_log_temp) = Inr xt" "shape xt = [2]"
    "elem xt [0] = 0"
    using v by (auto simp: ex_simps ex_logits_def)
  from w1 have "forward (cv1\<lparr>log_temp := ex_log_temp, eta := ex_eta\<rparr>) ex_logits
       = ebind (ex_f (tsigmoid xt)) (\<lambda>y. tmul ex_eta y)"
    using xt(1) by (simp add: ex_simps ebind_def)
  then have "\<exists>r. forward (cv1\<lparr>log_temp := ex_log_temp, eta := ex_eta\<rparr>) ex_logits = Inr r \<and>
       elem r [0] = 1"
    using xt(2,3)
    by (simp add: ex_f_def ebind_def tmul_def tbin_def ex_eta_def tsigmoid_def bs bi sigmoid_def)
  then have b: "\<exists>cv r. snd (REBAR_init ex_f ''bern'' (1 / 10) 1 True) = Inr cv \<and>
       forward (cv\<lparr>log_temp := ex_log_temp, eta := ex_eta\<rparr>) ex_logits = Inr r \<and>
       elem r [0] = 1"
    using cv1 by blast
  obtain cv2 where cv2: "snd (REBAR_init ex_f ''onehot'' (1 / 10) 1 True) = Inr cv2"
    by (simp add: REBAR_init_def Let_def ex_simps tags_disjoint)
  note w2 = rebar_forward [OF cv2 refl, where lt = ex_log_temp and et = ex_eta
      and x = ex_logits]
  from w2 s obtain yt sm where sm: "tdiv ex_logits (texp ex_log_temp) = Inr yt"
    "shape yt = [2]" "elem yt [0] = 0" "elem yt [Suc 0] = 0"
    "softmax_last yt = Inr sm" "shape sm = [2]"
    "elem sm [0] = exp (elem yt [0]) / sum_list (map exp (row yt []))"
    using v by (auto simp: ex_simps ex_logits_def)
  have half: "elem sm [0] = 1 / 2" using sm(2,3,4,7) by (simp add: row_def upt_0_2)
  from w2 have "forward (cv2\<lparr>log_temp := ex_log_temp, eta := ex_eta\<rparr>) ex_logits
       = ebind (ex_f sm) (\<lambda>y. tmul ex_eta y)"
    using sm(1,5) by (simp add: ex_simps ebind_def)
  then have "\<exists>r. forward (cv2\<lparr>log_temp := ex_log_temp, eta := ex_eta\<rparr>) ex_logits = Inr r \<and>
       elem r [0] = 1"
    using sm(6) half
    by (simp add: ex_f_def ebind_def tmul_def tbin_def ex_eta_def bs bi)
  then have c: "\<exists>cv r. snd (REBAR_init ex_f ''onehot'' (1 / 10) 1 True) = Inr cv \<and>
       forward (cv\<lparr>log_temp := ex_log_temp, eta := ex_eta\<rparr>) ex_logits = Inr r \<and>
       elem r [0] = 1"
    using cv2 by blast
  show ?thesis using s b c by (simp add: ex_simps)
qed

text \<open>
  C8. Constructing the control variate with a start temperature of zero or below raises a
  \<open>ValueError\<close>. Constructed with a positive start temperature and a supported tag, its
  log-temperature is \<open>log start_temp\<close> and its scale is \<open>start_eta\<close>, and
  \<open>reset_parameters\<close> restores both after any change of the two parameters.
\<close>

theorem rebar_init_and_reset:
  "(temp0 \<le> 0 \<longrightarrow>
      REBAR_init f dst temp0 eta0 warn = ([], Inl (ValueError ''start_temp must be positive''))) \<and>
   (0 < temp0 \<longrightarrow> dst \<in> BERNOULLI_SYNONYMS \<union> CATEGORICAL_SYNONYMS \<union> ONEHOT_SYNONYMS \<longrightarrow>
      (\<exists>cv. snd (REBAR_init f dst temp0 eta0 warn) = Inr cv \<and>
         shape (log_temp cv) = [1] \<and> shape (eta cv) = [1] \<and>
         (\<forall>i. elem (log_temp cv) i = ln temp0 \<and> elem (eta cv) i = eta0) \<and>
         (\<forall>lt et i.
            elem (log_temp (reset_parameters (cv\<lparr>log_temp := lt, eta := et\<rparr>))) i = ln temp0 \<and>
            elem (eta (reset_parameters (cv\<lparr>log_temp := lt, eta := et\<rparr>))) i = eta0 \<and>
            shape (log_temp (reset_parameters (cv\<lparr>log_temp := lt, eta := et\<rparr>))) = shape lt \<and>
            shape (eta (reset_parameters (cv\<lparr>log_temp := lt, eta := et\<rparr>))) = shape et)))"
  by (auto simp: REBAR_init_def Let_def reset_parameters_def fill_def tlog_def new_parameter_def)

theorem rebar_init_and_reset_witness:
  "(0 :: real) \<le> 0 \<and> (- 1 :: real) \<le> 0 \<and> (0 :: real) < 1 / 10 \<and>
   ''bern'' \<in> BERNOULLI_SYNONYMS \<union> CATEGORICAL_SYNONYMS \<union> ONEHOT_SYNONYMS \<and>
   REBAR_init ex_f ''bern'' 0 1 True = ([], Inl (ValueError ''start_temp must be positive'')) \<and>
   REBAR_init ex_f ''bern'' (- 1) 1 True
     = ([], Inl (ValueError ''start_temp must be positive'')) \<and>
   (\<exists>cv. snd (REBAR_init ex_f ''bern'' (1 / 10) 1 True) = Inr cv \<and>
      elem (log_temp (reset_parameters (cv\<lparr>log_temp := ex_log_temp, eta := ex_eta\<rparr>))) [0]
        = ln (1 / 10) \<and>
      elem (eta (reset_parameters (cv\<lparr>log_temp := ex_log_temp, eta := ex_eta\<rparr>))) [0] = 1)"
proof -
  have t: "''bern'' \<in> BERNOULLI_SYNONYMS \<union> CATEGORICAL_SYNONYMS \<union> ONEHOT_SYNONYMS"
    by (simp add: ex_simps)
  from rebar_init_and_reset [of 0 ex_f "''bern''" 1 True]
  have a: "REBAR_init ex_f ''bern'' 0 1 True
             = ([], Inl (ValueError ''start_temp must be positive''))" by simp
  from rebar_init_and_reset [of "- 1" ex_f "''bern''" 1 True]
  have b: "REBAR_init ex_f ''bern'' (- 1) 1 True
             = ([], Inl (ValueError ''start_temp must be positive''))" by simp
  from rebar_init_and_reset [of "1 / 10" ex_f "''bern''" 1 True] t
  have c: "\<exists>cv. snd (REBAR_init ex_f ''bern'' (1 / 10) 1 True) = Inr cv \<and>
      elem (log_temp (reset_parameters (cv\<lparr>log_temp := ex_log_temp, eta := ex_eta\<rparr>))) [0]
        = ln (1 / 10) \<and>
      elem (eta (reset_parameters (cv\<lparr>log_temp := ex_log_temp, eta := ex_eta\<rparr>))) [0] = 1"
    by auto
  show ?thesis using t a b c by simp
qed

end
